theory Spec2Isabelle
  imports Main "HOL-Library.Word" "HOL-Library.Code_Target_Nat"
begin

chapter \<open>The model\<close>

section \<open>The SilentLedger contract\<close>

text \<open>
  The Solidity contract \<^verbatim>\<open>SilentLedger\<close> keeps three mappings keyed by the owner's
  address. A transaction either commits or reverts; a revert leaves the storage as it
  was, so every entry point returns either the revert reason or the new storage together
  with what it sent to the outside (access grants of the FHE library and events).
\<close>

type_synonym address = "160 word"
type_synonym uint256 = "256 word"
type_synonym eaddress = "256 word"
type_synonym externalEaddress = "256 word"
type_synonym bytes = "8 word list"

record PouchEntry =
  createdAt :: uint256
  ciphertext :: string

text \<open>The storage: \<^verbatim>\<open>_hasLedger\<close>, \<^verbatim>\<open>_ledgerKey\<close> and \<^verbatim>\<open>_pouch\<close> (an identifier
  cannot start with an underscore here, hence the prefix).\<close>

record SilentLedger =
  m_hasLedger :: "address \<Rightarrow> bool"
  m_ledgerKey :: "address \<Rightarrow> eaddress"
  m_pouch :: "address \<Rightarrow> PouchEntry list"

datatype revert =
    LedgerAlreadyExists address
  | LedgerNotFound address
  | EntryIndexOutOfBounds address uint256
  | InvalidInputProof

datatype effect =
    AllowThis eaddress
  | Allow eaddress address
  | LedgerCreated address
  | LedgerKeyRotated address
  | EntryStored address uint256

text \<open>
  \<^verbatim>\<open>FHE.fromExternal\<close> belongs to the FHE library: it checks the input proof for the
  caller and returns the key handle, or reverts. It is a parameter of the model
  (\<open>None\<close> is the revert).
\<close>

type_synonym fromExternal = "address \<Rightarrow> externalEaddress \<Rightarrow> bytes \<Rightarrow> eaddress option"

text \<open>A freshly deployed contract: every mapping holds the default value.\<close>

definition deployed :: SilentLedger where
  "deployed = \<lparr>m_hasLedger = (\<lambda>_. False), m_ledgerKey = (\<lambda>_. 0), m_pouch = (\<lambda>_. [])\<rparr>"

definition hasLedger :: "SilentLedger \<Rightarrow> address \<Rightarrow> bool" where
  "hasLedger s owner = m_hasLedger s owner"

definition createLedger ::
  "fromExternal \<Rightarrow> address \<Rightarrow> externalEaddress \<Rightarrow> bytes \<Rightarrow> SilentLedger
     \<Rightarrow> revert + (SilentLedger \<times> effect list)" where
  "createLedger fhe owner encryptedKey inputProof s =
     (if m_hasLedger s owner then Inl (LedgerAlreadyExists owner)
      else case fhe owner encryptedKey inputProof of
        None \<Rightarrow> Inl InvalidInputProof
      | Some key \<Rightarrow>
          Inr (s\<lparr>m_hasLedger := (m_hasLedger s)(owner := True),
                 m_ledgerKey := (m_ledgerKey s)(owner := key)\<rparr>,
               [AllowThis key, Allow key owner, LedgerCreated owner]))"

definition rotateLedgerKey ::
  "fromExternal \<Rightarrow> address \<Rightarrow> externalEaddress \<Rightarrow> bytes \<Rightarrow> SilentLedger
     \<Rightarrow> revert + (SilentLedger \<times> effect list)" where
  "rotateLedgerKey fhe owner encryptedKey inputProof s =
     (if \<not> m_hasLedger s owner then Inl (LedgerNotFound owner)
      else case fhe owner encryptedKey inputProof of
        None \<Rightarrow> Inl InvalidInputProof
      | Some key \<Rightarrow>
          Inr (s\<lparr>m_ledgerKey := (m_ledgerKey s)(owner := key)\<rparr>,
               [AllowThis key, Allow key owner, LedgerKeyRotated owner]))"

definition getLedgerKey :: "SilentLedger \<Rightarrow> address \<Rightarrow> revert + eaddress" where
  "getLedgerKey s owner =
     (if \<not> m_hasLedger s owner then Inl (LedgerNotFound owner)
      else Inr (m_ledgerKey s owner))"

text \<open>\<^verbatim>\<open>storeEntry\<close>: \<open>now\<close> is \<^verbatim>\<open>block.timestamp\<close>. The event carries
  \<^verbatim>\<open>_pouch[owner].length - 1\<close>, read after the push.\<close>

definition storeEntry ::
  "address \<Rightarrow> uint256 \<Rightarrow> string \<Rightarrow> SilentLedger \<Rightarrow> revert + (SilentLedger \<times> effect list)" where
  "storeEntry owner now c s =
     (if \<not> m_hasLedger s owner then Inl (LedgerNotFound owner)
      else
        let pouch = m_pouch s owner @ [\<lparr>createdAt = now, ciphertext = c\<rparr>]
        in Inr (s\<lparr>m_pouch := (m_pouch s)(owner := pouch)\<rparr>,
                [EntryStored owner (word_of_nat (length pouch) - 1)]))"

definition getEntryCount :: "SilentLedger \<Rightarrow> address \<Rightarrow> uint256" where
  "getEntryCount s owner = word_of_nat (length (m_pouch s owner))"

definition getEntry :: "SilentLedger \<Rightarrow> address \<Rightarrow> uint256 \<Rightarrow> revert + (uint256 \<times> string)" where
  "getEntry s owner index =
     (if unat index \<ge> length (m_pouch s owner) then Inl (EntryIndexOutOfBounds owner index)
      else let entry = m_pouch s owner ! unat index
           in Inr (createdAt entry, ciphertext entry))"

subsection \<open>Transactions and histories\<close>

text \<open>
  A transaction names its sender (\<^verbatim>\<open>msg.sender\<close>), the block's timestamp and the
  entry point called. A history is the list of transactions the chain has processed, in
  order; a reverted transaction leaves no trace in the storage.
\<close>

datatype call =
    CreateLedger externalEaddress bytes
  | RotateLedgerKey externalEaddress bytes
  | StoreEntry string

record tx =
  sender :: address
  timestamp :: uint256
  called :: call

definition exec :: "fromExternal \<Rightarrow> tx \<Rightarrow> SilentLedger \<Rightarrow> revert + (SilentLedger \<times> effect list)" where
  "exec fhe t s =
     (case called t of
        CreateLedger k p \<Rightarrow> createLedger fhe (sender t) k p s
      | RotateLedgerKey k p \<Rightarrow> rotateLedgerKey fhe (sender t) k p s
      | StoreEntry c \<Rightarrow> storeEntry (sender t) (timestamp t) c s)"

definition commit :: "fromExternal \<Rightarrow> tx \<Rightarrow> SilentLedger \<Rightarrow> SilentLedger" where
  "commit fhe t s = (case exec fhe t s of Inl _ \<Rightarrow> s | Inr (s', _) \<Rightarrow> s')"

fun run :: "fromExternal \<Rightarrow> tx list \<Rightarrow> SilentLedger \<Rightarrow> SilentLedger" where
  "run fhe [] s = s"
| "run fhe (t # ts) s = run fhe ts (commit fhe t s)"

text \<open>The successful \<^verbatim>\<open>storeEntry\<close> calls of one owner in a history, in call order,
  each with the timestamp of its block.\<close>

fun stored :: "fromExternal \<Rightarrow> address \<Rightarrow> tx list \<Rightarrow> SilentLedger \<Rightarrow> (uint256 \<times> string) list" where
  "stored fhe owner [] s = []"
| "stored fhe owner (t # ts) s =
     (case (called t, exec fhe t s) of
        (StoreEntry c, Inr _) \<Rightarrow>
          (if sender t = owner then [(timestamp t, c)] else []) @ stored fhe owner ts (commit fhe t s)
      | _ \<Rightarrow> stored fhe owner ts (commit fhe t s))"

section \<open>The client's cipher module\<close>

text \<open>
  The module \<^verbatim>\<open>ledgerCrypto\<close> turns the clear key (an address string) into an AES-GCM
  key and encrypts and decrypts the pouch's strings. A JavaScript string is a sequence of
  16-bit code units; a \<^verbatim>\<open>Uint8Array\<close> is a list of bytes.
\<close>

type_synonym byte = "8 word"
type_synonym code_unit = "16 word"
type_synonym jsstring = "code_unit list"

text \<open>A string literal of the source (ASCII), as code units.\<close>

definition js :: "string \<Rightarrow> jsstring" where
  "js s = map (\<lambda>c. word_of_nat (of_char c)) s"

text \<open>What the module and the platform throw: \<^verbatim>\<open>new Error(message)\<close>, or a
  \<^verbatim>\<open>DOMException\<close> of the platform, known by its name.\<close>

datatype dom_name = InvalidCharacterError | OperationError | DataError

datatype exn = Error jsstring | DOMException dom_name

subsection \<open>The address check\<close>

definition isHexDigit :: "code_unit \<Rightarrow> bool" where
  "isHexDigit c =
     ((0x30 \<le> c \<and> c \<le> 0x39) \<or> (0x41 \<le> c \<and> c \<le> 0x46) \<or> (0x61 \<le> c \<and> c \<le> 0x66))"

text \<open>\<^verbatim>\<open>ADDRESS_RE.test\<close> for \<^verbatim>\<open>/^0x[a-fA-F0-9]{40}$/\<close>: without the \<^verbatim>\<open>m\<close> flag,
  \<^verbatim>\<open>^\<close> and \<^verbatim>\<open>$\<close> match only at the two ends of the string.\<close>

definition ADDRESS_RE :: "jsstring \<Rightarrow> bool" where
  "ADDRESS_RE a = (length a = 42 \<and> take 2 a = js ''0x'' \<and> list_all isHexDigit (drop 2 a))"

definition assertAddress :: "jsstring \<Rightarrow> exn + unit" where
  "assertAddress a =
     (if \<not> ADDRESS_RE a then Inl (Error (js ''Invalid address key: '' @ a)) else Inr ())"

subsection \<open>Hexadecimal to bytes\<close>

definition slice :: "'a list \<Rightarrow> nat \<Rightarrow> nat \<Rightarrow> 'a list" where
  "slice s a b = take (b - a) (drop a s)"

definition hexValue :: "code_unit \<Rightarrow> nat" where
  "hexValue c =
     (if c \<le> 0x39 then unat c - 0x30 else if c \<le> 0x46 then unat c - 0x41 + 10
      else unat c - 0x61 + 10)"

text \<open>
  \<^verbatim>\<open>Number.parseInt(s, 16)\<close> reads the longest prefix of hexadecimal digits and gives
  \<^verbatim>\<open>NaN\<close> (here \<open>None\<close>) when there is none. Leading white space, a sign and a
  \<^verbatim>\<open>0x\<close> prefix, which it would also accept, are left out: \<^verbatim>\<open>hexToBytes\<close> is only
  called on a string that \<^verbatim>\<open>assertAddress\<close> has accepted, after its first two code
  units are dropped, so each slice is two hexadecimal digits.
\<close>

definition parseInt16 :: "jsstring \<Rightarrow> nat option" where
  "parseInt16 s =
     (case takeWhile isHexDigit s of
        [] \<Rightarrow> None
      | ds \<Rightarrow> Some (foldl (\<lambda>n d. 16 * n + hexValue d) 0 ds))"

text \<open>Storing into a \<^verbatim>\<open>Uint8Array\<close> keeps the value modulo 256; \<^verbatim>\<open>NaN\<close> is stored
  as 0.\<close>

definition hexToBytes :: "jsstring \<Rightarrow> byte list" where
  "hexToBytes hex =
     (let normalized = (if take 2 hex = js ''0x'' then drop 2 hex else hex)
      in map (\<lambda>i. case parseInt16 (slice normalized (i * 2) (i * 2 + 2)) of
                     None \<Rightarrow> 0
                   | Some v \<Rightarrow> word_of_nat v)
             [0..<length normalized div 2])"

subsection \<open>Base64\<close>

text \<open>The alphabet of \<^verbatim>\<open>btoa\<close> and \<^verbatim>\<open>atob\<close>: the code unit of a six-bit value, and
  the six-bit value of a code unit of the alphabet.\<close>

definition b64char :: "nat \<Rightarrow> code_unit" where
  "b64char n =
     word_of_nat (if n < 26 then 65 + n else if n < 52 then 97 + (n - 26)
                  else if n < 62 then 48 + (n - 52) else if n = 62 then 43 else 47)"

definition b64index :: "code_unit \<Rightarrow> nat option" where
  "b64index c =
     (if 65 \<le> c \<and> c \<le> 90 then Some (unat c - 65)
      else if 97 \<le> c \<and> c \<le> 122 then Some (unat c - 97 + 26)
      else if 48 \<le> c \<and> c \<le> 57 then Some (unat c - 48 + 52)
      else if c = 43 then Some 62
      else if c = 47 then Some 63
      else None)"

text \<open>\<^verbatim>\<open>btoa\<close> on the values of a binary string: three bytes give four code units,
  and a last group of one or two bytes is padded with \<^verbatim>\<open>=\<close>.\<close>

fun b64encode :: "nat list \<Rightarrow> jsstring" where
  "b64encode (a # b # c # rest) =
     [b64char (a div 4), b64char ((a mod 4) * 16 + b div 16),
      b64char ((b mod 16) * 4 + c div 64), b64char (c mod 64)] @ b64encode rest"
| "b64encode [a, b] =
     [b64char (a div 4), b64char ((a mod 4) * 16 + b div 16), b64char ((b mod 16) * 4), 61]"
| "b64encode [a] = [b64char (a div 4), b64char ((a mod 4) * 16), 61, 61]"
| "b64encode [] = []"

text \<open>\<^verbatim>\<open>btoa\<close> throws when the string has a code unit above \<^verbatim>\<open>0xFF\<close>.\<close>

definition btoa :: "jsstring \<Rightarrow> exn + jsstring" where
  "btoa s =
     (if list_ex (\<lambda>c. 0xFF < c) s then Inl (DOMException InvalidCharacterError)
      else Inr (b64encode (map unat s)))"

text \<open>
  \<^verbatim>\<open>bytesToBase64\<close> builds the binary string in chunks of \<^verbatim>\<open>0x8000\<close> bytes
  (\<^verbatim>\<open>String.fromCharCode\<close> of each chunk) and hands it to \<^verbatim>\<open>btoa\<close>.
\<close>

function binaryString :: "byte list \<Rightarrow> jsstring" where
  "binaryString bs =
     (if bs = [] then []
      else map ucast (take 0x8000 bs) @ binaryString (drop 0x8000 bs))"
  by pat_completeness auto
termination
  by (relation "measure length") auto

declare binaryString.simps [simp del]

definition bytesToBase64 :: "byte list \<Rightarrow> exn + jsstring" where
  "bytesToBase64 bs = btoa (binaryString bs)"

text \<open>
  \<^verbatim>\<open>atob\<close> is the forgiving base64 decoder of the platform: it removes ASCII white
  space; when the length is then a multiple of four it removes one or two trailing
  \<^verbatim>\<open>=\<close>; it fails when the length is 1 modulo 4 or a code unit is outside the
  alphabet; it decodes four code units to three bytes, and of a last group of two or
  three code units it keeps the first eight or sixteen bits and drops the rest.
\<close>

definition isAsciiWhitespace :: "code_unit \<Rightarrow> bool" where
  "isAsciiWhitespace c = (c = 0x09 \<or> c = 0x0A \<or> c = 0x0C \<or> c = 0x0D \<or> c = 0x20)"

definition stripPadding :: "jsstring \<Rightarrow> jsstring" where
  "stripPadding d =
     (if length d mod 4 = 0 then
        (if 2 \<le> length d \<and> drop (length d - 2) d = [61, 61] then take (length d - 2) d
         else if 1 \<le> length d \<and> drop (length d - 1) d = [61] then take (length d - 1) d
         else d)
      else d)"

fun b64decode :: "nat list \<Rightarrow> nat list" where
  "b64decode (a # b # c # d # rest) =
     [a * 4 + b div 16, (b mod 16) * 16 + c div 4, (c mod 4) * 64 + d] @ b64decode rest"
| "b64decode [a, b, c] = [a * 4 + b div 16, (b mod 16) * 16 + c div 4]"
| "b64decode [a, b] = [a * 4 + b div 16]"
| "b64decode [a] = []"
| "b64decode [] = []"

definition atob :: "jsstring \<Rightarrow> exn + jsstring" where
  "atob data =
     (let d = stripPadding (filter (\<lambda>c. \<not> isAsciiWhitespace c) data)
      in if length d mod 4 = 1 then Inl (DOMException InvalidCharacterError)
         else if list_ex (\<lambda>c. b64index c = None) d then Inl (DOMException InvalidCharacterError)
         else Inr (map word_of_nat (b64decode (map (\<lambda>c. the (b64index c)) d))))"

text \<open>\<^verbatim>\<open>base64ToBytes\<close>: the code units of the binary string, stored into a
  \<^verbatim>\<open>Uint8Array\<close>.\<close>

definition base64ToBytes :: "jsstring \<Rightarrow> exn + byte list" where
  "base64ToBytes base64 =
     (case atob base64 of
        Inl e \<Rightarrow> Inl e
      | Inr binary \<Rightarrow> Inr (map ucast binary))"

subsection \<open>Text encoding\<close>

text \<open>
  \<^verbatim>\<open>new TextEncoder().encode(s)\<close> reads the string as scalar values, an unpaired
  surrogate giving U+FFFD, and writes each scalar value in UTF-8.
\<close>

definition isHighSurrogate :: "nat \<Rightarrow> bool" where
  "isHighSurrogate c = (0xD800 \<le> c \<and> c \<le> 0xDBFF)"

definition isLowSurrogate :: "nat \<Rightarrow> bool" where
  "isLowSurrogate c = (0xDC00 \<le> c \<and> c \<le> 0xDFFF)"

fun scalarValues :: "nat list \<Rightarrow> nat list" where
  "scalarValues (c # d # cs) =
     (if isHighSurrogate c \<and> isLowSurrogate d
      then (0x10000 + (c - 0xD800) * 0x400 + (d - 0xDC00)) # scalarValues cs
      else if isHighSurrogate c \<or> isLowSurrogate c then 0xFFFD # scalarValues (d # cs)
      else c # scalarValues (d # cs))"
| "scalarValues [c] = [if isHighSurrogate c \<or> isLowSurrogate c then 0xFFFD else c]"
| "scalarValues [] = []"

definition utf8Bytes :: "nat \<Rightarrow> nat list" where
  "utf8Bytes cp =
     (if cp < 0x80 then [cp]
      else if cp < 0x800 then [0xC0 + cp div 64, 0x80 + cp mod 64]
      else if cp < 0x10000 then [0xE0 + cp div 4096, 0x80 + (cp div 64) mod 64, 0x80 + cp mod 64]
      else [0xF0 + cp div 262144, 0x80 + (cp div 4096) mod 64, 0x80 + (cp div 64) mod 64,
            0x80 + cp mod 64])"

definition TextEncoder_encode :: "jsstring \<Rightarrow> byte list" where
  "TextEncoder_encode s = map word_of_nat (concat (map utf8Bytes (scalarValues (map unat s))))"

text \<open>
  \<^verbatim>\<open>new TextDecoder().decode(bytes)\<close> is the UTF-8 decoder of the platform, not fatal:
  a state machine over the bytes that holds the code point under construction, the
  number of continuation bytes seen and needed, and the range allowed for the next byte.
  A byte that cannot start or continue a sequence gives U+FFFD; a byte that ends a
  sequence early is read again as the start of the next one. \<open>cp * 64 + b mod 64\<close> is
  \<^verbatim>\<open>(cp << 6) | (b & 0x3F)\<close>, and \<open>b mod 32\<close>, \<open>b mod 16\<close>, \<open>b mod 8\<close> are the masks
  \<^verbatim>\<open>b & 0x1F\<close>, \<^verbatim>\<open>b & 0xF\<close>, \<^verbatim>\<open>b & 0x7\<close>.
\<close>

function utf8Decoder :: "nat \<Rightarrow> nat \<Rightarrow> nat \<Rightarrow> nat \<Rightarrow> nat \<Rightarrow> nat list \<Rightarrow> nat list" where
  "utf8Decoder cp seen needed lower upper [] = (if needed \<noteq> 0 then [0xFFFD] else [])"
| "utf8Decoder cp seen needed lower upper (b # bs) =
     (if needed = 0 then
        (if b \<le> 0x7F then b # utf8Decoder 0 0 0 0x80 0xBF bs
         else if 0xC2 \<le> b \<and> b \<le> 0xDF then utf8Decoder (b mod 32) 0 1 0x80 0xBF bs
         else if 0xE0 \<le> b \<and> b \<le> 0xEF then
           utf8Decoder (b mod 16) 0 2 (if b = 0xE0 then 0xA0 else 0x80)
             (if b = 0xED then 0x9F else 0xBF) bs
         else if 0xF0 \<le> b \<and> b \<le> 0xF4 then
           utf8Decoder (b mod 8) 0 3 (if b = 0xF0 then 0x90 else 0x80)
             (if b = 0xF4 then 0x8F else 0xBF) bs
         else 0xFFFD # utf8Decoder 0 0 0 0x80 0xBF bs)
      else if b < lower \<or> upper < b then 0xFFFD # utf8Decoder 0 0 0 0x80 0xBF (b # bs)
      else if seen + 1 \<noteq> needed then utf8Decoder (cp * 64 + b mod 64) (seen + 1) needed 0x80 0xBF bs
      else (cp * 64 + b mod 64) # utf8Decoder 0 0 0 0x80 0xBF bs)"
  by pat_completeness auto
termination
  by (relation "measure (\<lambda>(cp, seen, needed, lower, upper, bs).
        2 * length bs + (if needed = 0 then 0 else 1))") auto

text \<open>A code point as UTF-16 code units.\<close>

definition utf16Units :: "nat \<Rightarrow> nat list" where
  "utf16Units cp =
     (if cp < 0x10000 then [cp]
      else [0xD800 + (cp - 0x10000) div 0x400, 0xDC00 + (cp - 0x10000) mod 0x400])"

text \<open>The decoder is built with the default options, so \<^verbatim>\<open>ignoreBOM\<close> is false: when
  the first code point decoded is U+FEFF, it is left out of the result.\<close>

definition TextDecoder_decode :: "byte list \<Rightarrow> jsstring" where
  "TextDecoder_decode bytes =
     (let out = utf8Decoder 0 0 0 0x80 0xBF (map unat bytes);
          out' = (case out of [] \<Rightarrow> [] | cp # rest \<Rightarrow> if cp = 0xFEFF then rest else out)
      in map word_of_nat (concat (map utf16Units out')))"

text \<open>
  A string is well formed when it has no unpaired surrogate: what
  \<^verbatim>\<open>String.prototype.isWellFormed\<close> tests.
\<close>

fun wellFormedUnits :: "nat list \<Rightarrow> bool" where
  "wellFormedUnits (c # d # cs) =
     (if isHighSurrogate c then isLowSurrogate d \<and> wellFormedUnits cs
      else \<not> isLowSurrogate c \<and> wellFormedUnits (d # cs))"
| "wellFormedUnits [c] = (\<not> isHighSurrogate c \<and> \<not> isLowSurrogate c)"
| "wellFormedUnits [] = True"

definition isWellFormed :: "jsstring \<Rightarrow> bool" where
  "isWellFormed s = wellFormedUnits (map unat s)"

subsection \<open>The platform's cryptography\<close>

text \<open>
  \<^verbatim>\<open>crypto.subtle\<close> and \<^verbatim>\<open>crypto.getRandomValues\<close> belong to the platform and are
  parameters of the model: the SHA-256 digest, AES-GCM encryption (the result is the
  ciphertext followed by the tag), AES-GCM decryption (\<open>None\<close> when the tag does not
  match, which the platform reports as an \<^verbatim>\<open>OperationError\<close>), and the random bytes
  the platform gives to one call.
\<close>

record webcrypto =
  digestSHA256 :: "byte list \<Rightarrow> byte list"
  encryptAESGCM :: "byte list \<Rightarrow> byte list \<Rightarrow> byte list \<Rightarrow> byte list"
  decryptAESGCM :: "byte list \<Rightarrow> byte list \<Rightarrow> byte list \<Rightarrow> byte list option"
  getRandomValues :: "nat \<Rightarrow> byte list"

text \<open>
  What the platform's functions are taken to do: the digest has 32 bytes; decrypting what
  was encrypted with the same key and nonce gives the plaintext back; the ciphertext is
  the plaintext's length plus the 16 bytes of the tag; and \<^verbatim>\<open>getRandomValues\<close> fills
  the twelve bytes it is given.
\<close>

definition conforming :: "webcrypto \<Rightarrow> bool" where
  "conforming wc =
     ((\<forall>bs. length (digestSHA256 wc bs) = 32) \<and>
      (\<forall>key iv p. decryptAESGCM wc key iv (encryptAESGCM wc key iv p) = Some p) \<and>
      (\<forall>key iv p. length (encryptAESGCM wc key iv p) = length p + 16) \<and>
      length (getRandomValues wc 12) = 12)"

text \<open>Every call into the platform's cryptography is recorded, in order, so that a
  property can say that none was made.\<close>

datatype cryptocall =
    Digest "byte list"
  | ImportKey "byte list"
  | GetRandomValues nat
  | Encrypt "byte list" "byte list" "byte list"
  | Decrypt "byte list" "byte list" "byte list"

type_synonym 'a promise = "cryptocall list \<times> (exn + 'a)"

text \<open>\<^verbatim>\<open>importKey('raw', \<dots>, {name: 'AES-GCM'}, \<dots>)\<close> accepts 128, 192 or 256 bits of
  key and throws a \<^verbatim>\<open>DataError\<close> otherwise. A \<^verbatim>\<open>CryptoKey\<close> is its raw bytes.\<close>

definition deriveAesKeyFromAddress :: "webcrypto \<Rightarrow> jsstring \<Rightarrow> (byte list) promise" where
  "deriveAesKeyFromAddress wc addressKey =
     (case assertAddress addressKey of
        Inl e \<Rightarrow> ([], Inl e)
      | Inr _ \<Rightarrow>
          let addressBytes = hexToBytes addressKey;
              digest = digestSHA256 wc addressBytes
          in if length digest \<in> {16, 24, 32}
             then ([Digest addressBytes, ImportKey digest], Inr digest)
             else ([Digest addressBytes, ImportKey digest], Inl (DOMException DataError)))"

definition encryptWithAddressKey :: "webcrypto \<Rightarrow> jsstring \<Rightarrow> jsstring \<Rightarrow> jsstring promise" where
  "encryptWithAddressKey wc plaintext addressKey =
     (case deriveAesKeyFromAddress wc addressKey of
        (calls, Inl e) \<Rightarrow> (calls, Inl e)
      | (calls, Inr key) \<Rightarrow>
          let iv = getRandomValues wc 12;
              encoded = TextEncoder_encode plaintext;
              cipherBytes = encryptAESGCM wc key iv encoded;
              calls' = calls @ [GetRandomValues 12, Encrypt key iv encoded]
          in case bytesToBase64 iv of
               Inl e \<Rightarrow> (calls', Inl e)
             | Inr ivB64 \<Rightarrow>
                 (case bytesToBase64 cipherBytes of
                    Inl e \<Rightarrow> (calls', Inl e)
                  | Inr cipherB64 \<Rightarrow> (calls', Inr (js ''sl1:'' @ ivB64 @ js '':'' @ cipherB64))))"

text \<open>\<^verbatim>\<open>payload.split(':')\<close>: the segments between the separators. There is at
  least one segment, so the case of no segment in the second equation never arises.\<close>

fun split :: "jsstring \<Rightarrow> code_unit \<Rightarrow> jsstring list" where
  "split [] sep = [[]]"
| "split (c # cs) sep =
     (if c = sep then [] # split cs sep
      else (case split cs sep of
              [] \<Rightarrow> [[c]]
            | segment # segments \<Rightarrow> (c # segment) # segments))"

text \<open>An element of a destructured array: \<^verbatim>\<open>undefined\<close> (here \<open>None\<close>) past the end.
  \<^verbatim>\<open>!x\<close> holds of \<^verbatim>\<open>undefined\<close> and of the empty string.\<close>

definition element :: "'a list \<Rightarrow> nat \<Rightarrow> 'a option" where
  "element xs i = (if i < length xs then Some (xs ! i) else None)"

definition falsy :: "jsstring option \<Rightarrow> bool" where
  "falsy x = (x = None \<or> x = Some [])"

definition decryptWithAddressKey :: "webcrypto \<Rightarrow> jsstring \<Rightarrow> jsstring \<Rightarrow> jsstring promise" where
  "decryptWithAddressKey wc payload addressKey =
     (let parts = split payload 0x3A;
          prefix = element parts 0;
          ivB64 = element parts 1;
          cipherB64 = element parts 2
      in if prefix \<noteq> Some (js ''sl1'') \<or> falsy ivB64 \<or> falsy cipherB64
         then ([], Inl (Error (js ''Unsupported ciphertext format'')))
         else
           case deriveAesKeyFromAddress wc addressKey of
             (calls, Inl e) \<Rightarrow> (calls, Inl e)
           | (calls, Inr key) \<Rightarrow>
               (case base64ToBytes (the ivB64) of
                  Inl e \<Rightarrow> (calls, Inl e)
                | Inr iv \<Rightarrow>
                    (case base64ToBytes (the cipherB64) of
                       Inl e \<Rightarrow> (calls, Inl e)
                     | Inr cipherBytes \<Rightarrow>
                         (case decryptAESGCM wc key iv cipherBytes of
                            None \<Rightarrow> (calls @ [Decrypt key iv cipherBytes],
                                     Inl (DOMException OperationError))
                          | Some plainBuffer \<Rightarrow>
                              (calls @ [Decrypt key iv cipherBytes],
                               Inr (TextDecoder_decode plainBuffer))))))"

section \<open>The client component\<close>

text \<open>
  The React component \<^verbatim>\<open>LedgerApp\<close> holds the session: the entries read from the
  contract, and, while the ledger is unlocked, the clear key in \<^verbatim>\<open>ledgerKeyAddress\<close>.
  An absent field of an entry and a \<^verbatim>\<open>null\<close> state are \<open>None\<close>.
\<close>

record Entry =
  index :: nat
  createdAt :: int
  ciphertext :: jsstring
  plaintext :: "jsstring option"
  decryptError :: "jsstring option"

subsection \<open>Concurrent tasks\<close>

text \<open>
  \<^verbatim>\<open>Promise.all\<close> over tasks that run concurrently: the tasks settle in some order
  (the list \<open>order\<close> of their positions, in order of completion). A task that fulfils
  puts its value in the slot of its position; the first task that rejects rejects the
  whole. The result is \<open>None\<close> while some task has not settled.
\<close>

fun settle :: "('e + 'a) list \<Rightarrow> nat list \<Rightarrow> 'a option list \<Rightarrow> 'e + 'a option list" where
  "settle tasks [] slots = Inr slots"
| "settle tasks (i # order) slots =
     (if i < length tasks then
        (case tasks ! i of
           Inl e \<Rightarrow> Inl e
         | Inr v \<Rightarrow> settle tasks order (slots[i := Some v]))
      else settle tasks order slots)"

definition Promise_all :: "nat list \<Rightarrow> ('e + 'a) list \<Rightarrow> ('e + 'a list) option" where
  "Promise_all order tasks =
     (case settle tasks order (replicate (length tasks) None) of
        Inl e \<Rightarrow> Some (Inl e)
      | Inr slots \<Rightarrow> if list_all (\<lambda>x. x \<noteq> None) slots then Some (Inr (map the slots)) else None)"

subsection \<open>Numbers\<close>

text \<open>
  A JavaScript number is an IEEE 754 double. The numbers of \<^verbatim>\<open>refresh\<close> hold
  non-negative integers, so here a number is the natural number it holds, and the
  result of \<^verbatim>\<open>Number(count)\<close>, of a subtraction or of an addition is the double
  nearest to the exact result, the one with the even significand when two are equally
  near. Every integer below \<open>2 ^ 53\<close> is a double; an integer of more than 53 bits is
  a double when all its bits below the first 53 are zero. (The integers in reach stay
  far below \<open>2 ^ 1024\<close>, where a double overflows: \<open>count\<close> is a \<^verbatim>\<open>uint256\<close>.)
\<close>

fun bitLength :: "nat \<Rightarrow> nat" where
  "bitLength n = (if n = 0 then 0 else Suc (bitLength (n div 2)))"

declare bitLength.simps [simp del]

definition toDouble :: "nat \<Rightarrow> nat" where
  "toDouble n =
     (if n < 2 ^ 53 then n
      else let e = bitLength n - 53; q = n div 2 ^ e; r = n mod 2 ^ e; half = 2 ^ (e - 1)
           in if r < half \<or> (r = half \<and> even q) then q * 2 ^ e else (q + 1) * 2 ^ e)"

subsection \<open>Reading the pouch\<close>

text \<open>
  What a \<^verbatim>\<open>catch\<close> clause of the component sees of a value thrown by the public
  client, the wallet or the relayer: its message when it is an \<^verbatim>\<open>Error\<close>, \<open>None\<close>
  when it is anything else. \<^verbatim>\<open>e instanceof Error ? e.message : fallback\<close> is
  \<open>messageOr\<close>.
\<close>

type_synonym thrown = "jsstring option"

definition messageOr :: "thrown \<Rightarrow> jsstring \<Rightarrow> jsstring" where
  "messageOr e fallback = (case e of Some m \<Rightarrow> m | None \<Rightarrow> fallback)"

text \<open>
  The part of \<^verbatim>\<open>refresh\<close> that loads the entries: the indices of the last 25 entries,
  computed in numbers (\<open>safeCount - max\<close> on natural numbers is
  \<^verbatim>\<open>Math.max(0, safeCount - max)\<close>; \<^verbatim>\<open>BigInt(index)\<close> is exact), one \<^verbatim>\<open>getEntry\<close>
  read per index, all under \<^verbatim>\<open>Promise.all\<close>. \<open>readEntry\<close> is the read of the contract
  through the public client.
\<close>

definition refreshIndices :: "nat \<Rightarrow> nat list" where
  "refreshIndices count =
     (let safeCount = toDouble count;
          max = 25;
          start = toDouble (safeCount - max)
      in map (\<lambda>i. toDouble (start + i)) [0..<toDouble (safeCount - start)])"

definition refreshPouch ::
  "nat list \<Rightarrow> (nat \<Rightarrow> thrown + (int \<times> jsstring)) \<Rightarrow> nat \<Rightarrow> (thrown + Entry list) option" where
  "refreshPouch order readEntry count =
     Promise_all order
       (map (\<lambda>index.
               case readEntry index of
                 Inl e \<Rightarrow> Inl e
               | Inr (createdAt', ciphertext') \<Rightarrow>
                   Inr \<lparr>index = index, createdAt = createdAt', ciphertext = ciphertext',
                        plaintext = None, decryptError = None\<rparr>)
            (refreshIndices count))"


subsection \<open>Decrypting the entries\<close>

text \<open>
  \<^verbatim>\<open>err.message\<close> in the \<^verbatim>\<open>catch\<close> clause around
  \<^verbatim>\<open>decryptWithAddressKey(entry.ciphertext, ledgerKeyAddress)\<close>: the message of an
  \<^verbatim>\<open>Error\<close> of the module; for an exception of the platform (which is an \<^verbatim>\<open>Error\<close>
  too) the message the platform gave to this failure, \<open>pm\<close> of the two arguments of the
  call and the exception's name. Nothing else is thrown there, so the fallback
  \<^verbatim>\<open>'Decryption failed'\<close> is never taken.
\<close>

type_synonym platformMessages = "jsstring \<Rightarrow> jsstring \<Rightarrow> dom_name \<Rightarrow> jsstring"

definition errMessage :: "platformMessages \<Rightarrow> jsstring \<Rightarrow> jsstring \<Rightarrow> exn \<Rightarrow> jsstring" where
  "errMessage pm payload addressKey err =
     (case err of Error m \<Rightarrow> m | DOMException n \<Rightarrow> pm payload addressKey n)"

text \<open>One task of \<^verbatim>\<open>decryptAll\<close>: the callback of \<^verbatim>\<open>entries.map\<close>, with its
  \<^verbatim>\<open>try\<close>/\<^verbatim>\<open>catch\<close>.\<close>

definition decryptEntry :: "webcrypto \<Rightarrow> platformMessages \<Rightarrow> jsstring \<Rightarrow> Entry \<Rightarrow> Entry" where
  "decryptEntry wc pm ledgerKeyAddress entry =
     (if plaintext entry \<noteq> None \<or> decryptError entry \<noteq> None then entry
      else case snd (decryptWithAddressKey wc (ciphertext entry) ledgerKeyAddress) of
             Inr plaintext' \<Rightarrow> entry\<lparr>plaintext := Some plaintext', decryptError := None\<rparr>
           | Inl err \<Rightarrow>
               entry\<lparr>plaintext := None,
                     decryptError := Some (errMessage pm (ciphertext entry) ledgerKeyAddress err)\<rparr>)"

definition decryptAll ::
  "nat list \<Rightarrow> webcrypto \<Rightarrow> platformMessages \<Rightarrow> jsstring \<Rightarrow> Entry list
     \<Rightarrow> (exn + Entry list) option" where
  "decryptAll order wc pm ledgerKeyAddress entries =
     Promise_all order (map (\<lambda>entry. Inr (decryptEntry wc pm ledgerKeyAddress entry)) entries)"

subsection \<open>The state and its handlers\<close>

record LedgerApp =
  hasLedgerSt :: bool
  encryptedLedgerKey :: "jsstring option"
  ledgerKeyAddress :: "jsstring option"
  entries :: "Entry list"
  entryCount :: nat
  status :: jsstring
  error :: jsstring

text \<open>The state of a component that has just been mounted: the initial values of its
  \<^verbatim>\<open>useState\<close> hooks.\<close>

definition mounted :: LedgerApp where
  "mounted =
     \<lparr>hasLedgerSt = False, encryptedLedgerKey = None, ledgerKeyAddress = None, entries = [],
      entryCount = 0, status = [], error = []\<rparr>"

definition clearMessages :: "LedgerApp \<Rightarrow> LedgerApp" where
  "clearMessages s = s\<lparr>status := [], error := []\<rparr>"

definition lockLedger :: "LedgerApp \<Rightarrow> LedgerApp" where
  "lockLedger s = (clearMessages s)\<lparr>ledgerKeyAddress := None, status := js ''Ledger locked.''\<rparr>"

text \<open>
  What the handlers read of the wallet and of the page: \<^verbatim>\<open>isConnected\<close> and
  \<^verbatim>\<open>address\<close> of \<^verbatim>\<open>useAccount\<close> (here \<open>account\<close>), whether the relayer's instance
  and the signer are there, and the three tests on the chain and on the contract
  address.
\<close>

record environment =
  isConnected :: bool
  account :: "jsstring option"
  zamaInstance :: bool
  signerPromise :: bool
  isOnSepolia :: bool
  isContractAddressValid :: bool
  isContractAddressUnset :: bool

definition isAddress :: "jsstring \<Rightarrow> bool" where
  "isAddress v = ADDRESS_RE v"

text \<open>
  \<^verbatim>\<open>unlockLedger\<close>. \<open>now\<close> is \<^verbatim>\<open>Date.now()\<close> in milliseconds; \<open>reveal\<close> is what
  signing the request and the relayer's \<^verbatim>\<open>userDecrypt\<close> give for the authorisation
  (start time in seconds, days of validity): a thrown value, or the value found under
  the key handle (\<open>None\<close> when it is not a string). The authorisation is a local value
  of the function: no field of the state keeps its start or its duration.
\<close>

definition unlockLedger ::
  "environment \<Rightarrow> nat \<Rightarrow> (nat \<Rightarrow> nat \<Rightarrow> thrown + jsstring option) \<Rightarrow> LedgerApp \<Rightarrow> LedgerApp" where
  "unlockLedger env now reveal s0 =
     (let s = clearMessages s0 in
      if \<not> zamaInstance env \<or> falsy (account env) \<or> \<not> signerPromise env then
        s\<lparr>error := js ''Connect a wallet and wait for the encryption service to be ready.''\<rparr>
      else if falsy (encryptedLedgerKey s) then
        s\<lparr>error := js ''Ledger key not found. Create a ledger first.''\<rparr>
      else if \<not> isOnSepolia env then
        s\<lparr>error := js ''Switch your wallet network to Sepolia.''\<rparr>
      else if \<not> isContractAddressValid env \<or> isContractAddressUnset env then
        s\<lparr>error := js ''Set a valid deployed contract address first.''\<rparr>
      else
        let startTimeStamp = now div 1000; durationDays = 10
        in case reveal startTimeStamp durationDays of
             Inl e \<Rightarrow> s\<lparr>error := messageOr e (js ''Failed to unlock ledger.'')\<rparr>
           | Inr None \<Rightarrow> s\<lparr>error := js ''Unexpected decrypted key type.''\<rparr>
           | Inr (Some clearKey) \<Rightarrow>
               if \<not> isAddress clearKey then s\<lparr>error := js ''Unexpected decrypted key type.''\<rparr>
               else s\<lparr>ledgerKeyAddress := Some clearKey, status := js ''Ledger unlocked.''\<rparr>)"

subsection \<open>Renders and the decrypt effect\<close>

text \<open>
  The component as React runs it: the state of its hooks; the values that
  \<^verbatim>\<open>entryCount\<close> and \<^verbatim>\<open>ledgerKeyAddress\<close>, the dependencies of the decrypt effect
  (line 175), had when the effect last ran (\<open>None\<close> before the first render); and the
  \<^verbatim>\<open>decryptAll\<close> that the last run of the effect started and that has neither settled
  nor been cancelled, with the key and the entries of the render it was started in.
\<close>

record component =
  st :: LedgerApp
  lastDeps :: "(nat \<times> jsstring option) option"
  decrypting :: "(jsstring \<times> Entry list) option"

text \<open>
  One run of the decrypt effect (lines 140 to 175) in the render of the current state.
  React first calls the clean-up function of the previous run, which cancels a
  \<^verbatim>\<open>decryptAll\<close> still under way. Without a key the effect wipes what was decrypted;
  with a key, when some entry of this render is not decrypted yet, it starts
  \<^verbatim>\<open>decryptAll\<close> on the entries of this render.
\<close>

definition decryptEffect :: "component \<Rightarrow> component" where
  "decryptEffect c =
     (let s = st c;
          c' = c\<lparr>lastDeps := Some (entryCount s, ledgerKeyAddress s), decrypting := None\<rparr>
      in if falsy (ledgerKeyAddress s) then
           (if \<not> list_ex (\<lambda>entry. plaintext entry \<noteq> None \<or> decryptError entry \<noteq> None) (entries s)
            then c'
            else c'\<lparr>st := s\<lparr>entries :=
                              map (\<lambda>e. e\<lparr>plaintext := None, decryptError := None\<rparr>) (entries s)\<rparr>\<rparr>)
         else if \<not> list_ex (\<lambda>e. plaintext e = None \<and> decryptError e = None) (entries s) then c'
         else c'\<lparr>decrypting := Some (the (ledgerKeyAddress s), entries s)\<rparr>)"

text \<open>
  A render runs the effect only when one of its dependencies differs from the value it
  had at the last run. \<open>setState\<close> is one batch of state updates with the render that
  follows it.
\<close>

definition render :: "component \<Rightarrow> component" where
  "render c =
     (if lastDeps c = Some (entryCount (st c), ledgerKeyAddress (st c)) then c
      else decryptEffect c)"

definition setState :: "(LedgerApp \<Rightarrow> LedgerApp) \<Rightarrow> component \<Rightarrow> component" where
  "setState f c = render (c\<lparr>st := f (st c)\<rparr>)"

text \<open>The component after its first render.\<close>

definition mountedComponent :: component where
  "mountedComponent = render \<lparr>st = mounted, lastDeps = None, decrypting = None\<rparr>"

text \<open>
  The end of \<^verbatim>\<open>decryptAll\<close> (lines 155 to 168): when all its tasks have settled and
  the run that started it was not cancelled, \<^verbatim>\<open>setEntries(updated)\<close>.
\<close>

definition decryptAllSettled ::
  "nat list \<Rightarrow> webcrypto \<Rightarrow> platformMessages \<Rightarrow> component \<Rightarrow> component" where
  "decryptAllSettled order wc pm c =
     (case decrypting c of
        None \<Rightarrow> c
      | Some (key, captured) \<Rightarrow>
          (case decryptAll order wc pm key captured of
             Some (Inr updated) \<Rightarrow> setState (\<lambda>s. s\<lparr>entries := updated\<rparr>) (c\<lparr>decrypting := None\<rparr>)
           | _ \<Rightarrow> c))"

subsection \<open>Refresh\<close>

text \<open>
  The reads of the contract that \<^verbatim>\<open>refresh\<close> makes through
  \<^verbatim>\<open>publicClient.readContract\<close>, by function name: a thrown value or the result.
\<close>

record readContract =
  read_hasLedger :: "thrown + bool"
  read_getLedgerKey :: "thrown + jsstring"
  read_getEntryCount :: "thrown + nat"
  read_getEntry :: "nat \<Rightarrow> thrown + (int \<times> jsstring)"

text \<open>
  \<^verbatim>\<open>refresh\<close> (lines 65 to 134). React renders once for the state updates of one
  tick, so the updates between two reads of the contract are one batch, and each read,
  which goes over the network, ends after the render of the batch before it. The decrypt
  effect therefore sees \<^verbatim>\<open>setEntryCount(count)\<close> (line 108) before the entries are
  read, and \<^verbatim>\<open>setEntries(pouch)\<close> (line 127) after. Only when there is no index to
  read does \<^verbatim>\<open>Promise.all\<close> fulfil at once, with no entries, and the two updates
  fall into one batch. React runs \<^verbatim>\<open>refresh\<close> when the component is mounted and
  whenever the account, the connection or the contract address changes (lines 136 to
  138); the handlers that create a ledger or store an entry call it, and so does the
  Refresh button.
\<close>

definition refresh :: "environment \<Rightarrow> readContract \<Rightarrow> nat list \<Rightarrow> component \<Rightarrow> component" where
  "refresh env rc order c0 =
     (if \<not> isConnected env \<or> falsy (account env) then setState clearMessages c0
      else if \<not> isContractAddressValid env then
        setState (\<lambda>s. (clearMessages s)\<lparr>error := js ''Enter a valid contract address.''\<rparr>) c0
      else
        (let c = setState clearMessages c0;
             catch = (\<lambda>e. setState
                        (\<lambda>s. s\<lparr>error := messageOr e (js ''Failed to refresh ledger data.'')\<rparr>))
         in (case read_hasLedger rc of
               Inl e \<Rightarrow> catch e c
             | Inr has \<Rightarrow>
                 (if \<not> has then
                    setState (\<lambda>s. s\<lparr>hasLedgerSt := has, encryptedLedgerKey := None,
                                     ledgerKeyAddress := None, entryCount := 0, entries := []\<rparr>) c
                  else
                    (let c1 = setState (\<lambda>s. s\<lparr>hasLedgerSt := has\<rparr>) c
                     in (case read_getLedgerKey rc of
                           Inl e \<Rightarrow> catch e c1
                         | Inr encryptedKey \<Rightarrow>
                             (let c2 = setState (\<lambda>s. s\<lparr>encryptedLedgerKey := Some encryptedKey\<rparr>) c1
                              in (case read_getEntryCount rc of
                                    Inl e \<Rightarrow> catch e c2
                                  | Inr count \<Rightarrow>
                                      (if refreshIndices count = [] then
                                         setState (\<lambda>s. s\<lparr>entryCount := count, entries := []\<rparr>) c2
                                       else
                                         (let c3 = setState (\<lambda>s. s\<lparr>entryCount := count\<rparr>) c2
                                          in (case refreshPouch order (read_getEntry rc) count of
                                                None \<Rightarrow> c3
                                              | Some (Inl e) \<Rightarrow> catch e c3
                                              | Some (Inr pouch) \<Rightarrow>
                                                  setState (\<lambda>s. s\<lparr>entries := pouch\<rparr>) c3)))))))))))"

subsection \<open>Sessions\<close>

text \<open>
  What happens to a mounted component: \<^verbatim>\<open>refresh\<close> runs, the user presses Unlock or
  Lock, a \<^verbatim>\<open>decryptAll\<close> under way comes to its end. Each event happens at some time
  (milliseconds, as \<^verbatim>\<open>Date.now()\<close> gives it); \<^verbatim>\<open>unlockLedger\<close> is the only handler
  that reads the clock, and the component sets no timer. A session is the events of a
  component from its first render on, each handler running to its end before the next
  event.
\<close>

datatype event =
    Refresh environment readContract "nat list"
  | Unlock environment "nat \<Rightarrow> nat \<Rightarrow> thrown + jsstring option"
  | Lock
  | DecryptAllSettled "nat list"

definition handle :: "webcrypto \<Rightarrow> platformMessages \<Rightarrow> nat \<Rightarrow> event \<Rightarrow> component \<Rightarrow> component" where
  "handle wc pm now ev c =
     (case ev of
        Refresh env rc order \<Rightarrow> refresh env rc order c
      | Unlock env reveal \<Rightarrow> setState (unlockLedger env now reveal) c
      | Lock \<Rightarrow> setState lockLedger c
      | DecryptAllSettled order \<Rightarrow> decryptAllSettled order wc pm c)"

fun session ::
  "webcrypto \<Rightarrow> platformMessages \<Rightarrow> (nat \<times> event) list \<Rightarrow> component \<Rightarrow> component" where
  "session wc pm [] c = c"
| "session wc pm ((now, ev) # evs) c = session wc pm evs (handle wc pm now ev c)"

chapter \<open>Properties\<close>

section \<open>Properties of the contract\<close>

lemma commit_pouch:
  "m_pouch (commit fhe t s) owner =
     m_pouch s owner @
       (case (called t, exec fhe t s) of
          (StoreEntry c, Inr _) \<Rightarrow>
            (if sender t = owner then [\<lparr>PouchEntry.createdAt = timestamp t, PouchEntry.ciphertext = c\<rparr>] else [])
        | _ \<Rightarrow> [])"
  by (cases "called t")
     (auto simp: commit_def exec_def createLedger_def rotateLedgerKey_def storeEntry_def Let_def
           split: option.splits)

lemma run_pouch:
  "m_pouch (run fhe ts s) owner =
     m_pouch s owner @ map (\<lambda>(ts, c). \<lparr>PouchEntry.createdAt = ts, PouchEntry.ciphertext = c\<rparr>) (stored fhe owner ts s)"
proof (induction ts arbitrary: s)
  case Nil
  then show ?case by simp
next
  case (Cons t ts)
  show ?case
    by (simp add: Cons.IH commit_pouch [of fhe t s owner] split: call.splits sum.splits)
qed

lemma commit_hasLedger: "m_hasLedger s owner \<Longrightarrow> m_hasLedger (commit fhe t s) owner"
  by (cases "called t")
     (auto simp: commit_def exec_def createLedger_def rotateLedgerKey_def storeEntry_def Let_def
           split: option.splits)

lemma run_hasLedger: "m_hasLedger s owner \<Longrightarrow> m_hasLedger (run fhe ts s) owner"
  by (induction ts arbitrary: s) (auto simp: commit_hasLedger)

lemma run_append: "run fhe (ts @ us) s = run fhe us (run fhe ts s)"
  by (induction ts arbitrary: s) auto

lemma stored_append:
  "stored fhe owner (ts @ us) s = stored fhe owner ts s @ stored fhe owner us (run fhe ts s)"
  by (induction ts arbitrary: s) (auto split: call.splits sum.splits)

lemma getEntry_in_range:
  assumes "i < length (m_pouch s owner)" and "length (m_pouch s owner) < 2 ^ 256"
  shows "getEntry s owner (word_of_nat i) =
           Inr (PouchEntry.createdAt (m_pouch s owner ! i), PouchEntry.ciphertext (m_pouch s owner ! i))"
proof -
  have "i < 2 ^ 256" using assms by simp
  then have "unat (word_of_nat i :: uint256) = i"
    by (simp add: unat_of_nat)
  then show ?thesis using assms(1) by (simp add: getEntry_def Let_def)
qed

lemma getEntry_prefix:
  assumes "i < length es" and "i < 2 ^ 256" and "m_pouch s owner = es @ rest"
  shows "getEntry s owner (word_of_nat i) = Inr (PouchEntry.createdAt (es ! i), PouchEntry.ciphertext (es ! i))"
proof -
  have "unat (word_of_nat i :: uint256) = i"
    using assms(2) by (simp add: unat_of_nat)
  then show ?thesis using assms(1,3) by (simp add: getEntry_def Let_def nth_append)
qed

lemma getEntry_at_length:
  assumes "length (m_pouch s owner) = n" and "n < 2 ^ 256"
  shows "getEntry s owner (word_of_nat n) = Inl (EntryIndexOutOfBounds owner (word_of_nat n))"
proof -
  have "unat (word_of_nat n :: uint256) = n"
    using assms(2) by (simp add: unat_of_nat)
  then show ?thesis using assms(1) by (simp add: getEntry_def)
qed

text \<open>
  Claim C2 (append monotonicity). Take any history run on the freshly deployed contract,
  with transactions of any senders, and let \<open>es\<close> be the successful \<^verbatim>\<open>storeEntry\<close>
  calls of one owner in it, in call order (\<open>n\<close> of them, fewer than \<open>2 ^ 256\<close>, the range
  of the array length). Then \<^verbatim>\<open>getEntryCount\<close> of that owner is \<open>n\<close>; \<^verbatim>\<open>getEntry\<close>
  at every \<open>i < n\<close> returns the timestamp and the ciphertext of the \<open>i\<close>-th of these calls,
  and goes on returning them after any further transactions; and \<^verbatim>\<open>getEntry\<close> at \<open>n\<close>
  reverts with \<^verbatim>\<open>EntryIndexOutOfBounds\<close>.
\<close>

theorem storeEntry_append_monotone:
  assumes "stored fhe owner ts deployed = es" and "length es = n" and "n < 2 ^ 256"
  shows "unat (getEntryCount (run fhe ts deployed) owner) = n \<and>
         (\<forall>i<n. getEntry (run fhe ts deployed) owner (word_of_nat i) = Inr (es ! i)) \<and>
         (\<forall>us. \<forall>i<n. getEntry (run fhe (ts @ us) deployed) owner (word_of_nat i) = Inr (es ! i)) \<and>
         getEntry (run fhe ts deployed) owner (word_of_nat n) =
           Inl (EntryIndexOutOfBounds owner (word_of_nat n))"
proof -
  let ?mk = "\<lambda>(ts, c). \<lparr>PouchEntry.createdAt = ts, PouchEntry.ciphertext = c\<rparr>"
  have pouch: "m_pouch (run fhe ts deployed) owner = map ?mk es"
    using assms(1) by (simp add: run_pouch deployed_def)
  have len: "length (m_pouch (run fhe ts deployed) owner) = n"
    using pouch assms(2) by simp
  have count: "unat (getEntryCount (run fhe ts deployed) owner) = n"
    using len assms(3) by (simp add: getEntryCount_def unat_of_nat)
  have entry: "PouchEntry.createdAt (map ?mk es ! i) = fst (es ! i) \<and> PouchEntry.ciphertext (map ?mk es ! i) = snd (es ! i)"
    if "i < n" for i
    using that assms(2) by (simp add: case_prod_beta)
  have later: "getEntry (run fhe (ts @ us) deployed) owner (word_of_nat i) = Inr (es ! i)"
    if "i < n" for i us
  proof -
    have "m_pouch (run fhe (ts @ us) deployed) owner =
            map ?mk es @ map ?mk (stored fhe owner us (run fhe ts deployed))"
      using assms(1) by (simp add: run_pouch stored_append deployed_def)
    moreover have "i < length (map ?mk es)" and "i < 2 ^ 256"
      using that assms(2,3) by simp_all
    ultimately have "getEntry (run fhe (ts @ us) deployed) owner (word_of_nat i) =
        Inr (PouchEntry.createdAt (map ?mk es ! i), PouchEntry.ciphertext (map ?mk es ! i))"
      by (rule getEntry_prefix [rotated 2])
    then show ?thesis using entry [OF that] by simp
  qed
  have now: "getEntry (run fhe ts deployed) owner (word_of_nat i) = Inr (es ! i)"
    if "i < n" for i
    using later [OF that, of "[]"] by simp
  have beyond: "getEntry (run fhe ts deployed) owner (word_of_nat n) =
      Inl (EntryIndexOutOfBounds owner (word_of_nat n))"
    using len assms(3) by (rule getEntry_at_length)
  show ?thesis using count now later beyond by blast
qed

text \<open>The history of the contract's own test: Alice creates a ledger and stores two
  entries; Bob's attempt to store without a ledger reverts.\<close>

definition fhe_accept :: fromExternal where
  "fhe_accept owner k p = Some k"

definition alice :: address where "alice = 0xA11CE"
definition bob :: address where "bob = 0xB0B"

definition history2 :: "tx list" where
  "history2 =
     [\<lparr>sender = alice, timestamp = 100, called = CreateLedger 0x11 []\<rparr>,
      \<lparr>sender = alice, timestamp = 105, called = StoreEntry ''ciphertext:one''\<rparr>,
      \<lparr>sender = bob, timestamp = 106, called = StoreEntry ''ciphertext:bob''\<rparr>,
      \<lparr>sender = alice, timestamp = 107, called = StoreEntry ''ciphertext:two''\<rparr>]"

lemma stored_history2:
  "stored fhe_accept alice history2 deployed = [(105, ''ciphertext:one''), (107, ''ciphertext:two'')]"
  by (simp add: history2_def deployed_def exec_def commit_def createLedger_def storeEntry_def
        fhe_accept_def alice_def bob_def Let_def)

theorem storeEntry_append_monotone_witness:
  "unat (getEntryCount (run fhe_accept history2 deployed) alice) = 2 \<and>
   getEntry (run fhe_accept history2 deployed) alice 0 = Inr (105, ''ciphertext:one'') \<and>
   getEntry (run fhe_accept history2 deployed) alice 1 = Inr (107, ''ciphertext:two'') \<and>
   getEntry (run fhe_accept history2 deployed) alice 2 = Inl (EntryIndexOutOfBounds alice 2)"
proof -
  have n: "length [(105 :: uint256, ''ciphertext:one''), (107, ''ciphertext:two'')] = 2"
    by simp
  have b: "(2 :: nat) < 2 ^ 256" by simp
  note t = storeEntry_append_monotone [OF stored_history2 n b]
  have c: "unat (getEntryCount (run fhe_accept history2 deployed) alice) = 2"
    using t by (rule conjunct1)
  have a: "\<forall>i<2. getEntry (run fhe_accept history2 deployed) alice (word_of_nat i) =
      Inr ([(105, ''ciphertext:one''), (107, ''ciphertext:two'')] ! i)"
    using t by (elim conjE)
  have 0: "getEntry (run fhe_accept history2 deployed) alice (word_of_nat 0) =
      Inr ([(105, ''ciphertext:one''), (107, ''ciphertext:two'')] ! 0)"
    using a [rule_format, of 0] by simp
  have 1: "getEntry (run fhe_accept history2 deployed) alice (word_of_nat 1) =
      Inr ([(105, ''ciphertext:one''), (107, ''ciphertext:two'')] ! 1)"
    using a [rule_format, of 1] by simp
  have 2: "getEntry (run fhe_accept history2 deployed) alice (word_of_nat 2) =
      Inl (EntryIndexOutOfBounds alice (word_of_nat 2))"
    using t by (elim conjE)
  show ?thesis using c 0 1 2 by simp
qed

text \<open>
  Claim C3 (idempotence guard). Once \<^verbatim>\<open>createLedger\<close> has succeeded for an owner, then
  after any further history (of any senders) every \<^verbatim>\<open>createLedger\<close> call of that owner
  reverts with \<^verbatim>\<open>LedgerAlreadyExists\<close>, and the storage after the reverted call is the
  storage before it: the existence flag, the key handle and the pouch of every owner.
\<close>

theorem createLedger_again_reverts:
  assumes "createLedger fhe owner k0 p0 s0 = Inr (s1, effs)"
  shows "createLedger fhe owner k p (run fhe ts s1) = Inl (LedgerAlreadyExists owner) \<and>
         commit fhe \<lparr>sender = owner, timestamp = now, called = CreateLedger k p\<rparr> (run fhe ts s1) =
           run fhe ts s1"
proof -
  have "m_hasLedger s1 owner"
    using assms by (auto simp: createLedger_def split: if_splits option.splits)
  then have "m_hasLedger (run fhe ts s1) owner"
    by (rule run_hasLedger)
  then show ?thesis
    by (simp add: createLedger_def commit_def exec_def)
qed

definition created :: SilentLedger where
  "created = \<lparr>m_hasLedger = (\<lambda>_. False)(alice := True), m_ledgerKey = (\<lambda>_. 0)(alice := 0x11),
              m_pouch = (\<lambda>_. [])\<rparr>"

lemma createLedger_alice:
  "createLedger fhe_accept alice 0x11 [] deployed =
     Inr (created, [AllowThis 0x11, Allow 0x11 alice, LedgerCreated alice])"
  by (simp add: createLedger_def deployed_def fhe_accept_def created_def)

theorem createLedger_again_reverts_witness:
  "createLedger fhe_accept alice 0x22 [] created = Inl (LedgerAlreadyExists alice) \<and>
   commit fhe_accept \<lparr>sender = alice, timestamp = 101, called = CreateLedger 0x22 []\<rparr> created = created \<and>
   m_ledgerKey created alice = 0x11"
  using createLedger_again_reverts [OF createLedger_alice, where k = "0x22" and p = "[]" and ts = "[]" and now = 101]
  by (simp add: created_def)

text \<open>
  Claim C5 (rotation frame). \<^verbatim>\<open>rotateLedgerKey\<close> reverts with \<^verbatim>\<open>LedgerNotFound\<close> when
  the caller has no ledger. When the caller has one, the call reverts only if the FHE
  library rejects the input proof, and otherwise the new storage is the old one with the
  caller's key handle replaced: the existence flags and every pouch (each entry's index,
  timestamp and ciphertext) are as before, as are the key handles of all other owners.
\<close>

theorem rotateLedgerKey_frame:
  "(\<not> m_hasLedger s owner \<longrightarrow> rotateLedgerKey fhe owner k p s = Inl (LedgerNotFound owner)) \<and>
   (m_hasLedger s owner \<longrightarrow>
      (case fhe owner k p of
         None \<Rightarrow> rotateLedgerKey fhe owner k p s = Inl InvalidInputProof
       | Some key \<Rightarrow>
           rotateLedgerKey fhe owner k p s =
             Inr (s\<lparr>m_ledgerKey := (m_ledgerKey s)(owner := key)\<rparr>,
                  [AllowThis key, Allow key owner, LedgerKeyRotated owner]))) \<and>
   (\<forall>s' effs. rotateLedgerKey fhe owner k p s = Inr (s', effs) \<longrightarrow>
      m_hasLedger s' owner \<and> m_hasLedger s' = m_hasLedger s \<and> m_pouch s' = m_pouch s \<and>
      (\<forall>other i. getEntry s' other i = getEntry s other i) \<and>
      (\<forall>other. getEntryCount s' other = getEntryCount s other) \<and>
      (\<forall>other. other \<noteq> owner \<longrightarrow> m_ledgerKey s' other = m_ledgerKey s other))"
  by (auto simp: rotateLedgerKey_def getEntry_def getEntryCount_def split: option.splits)

definition stored1 :: SilentLedger where
  "stored1 = \<lparr>m_hasLedger = (\<lambda>_. False)(alice := True), m_ledgerKey = (\<lambda>_. 0)(alice := 0x11),
              m_pouch = (\<lambda>_. [])(alice := [\<lparr>PouchEntry.createdAt = 105, PouchEntry.ciphertext = ''ciphertext:one''\<rparr>])\<rparr>"

theorem rotateLedgerKey_frame_witness:
  "rotateLedgerKey fhe_accept bob 0x33 [] stored1 = Inl (LedgerNotFound bob) \<and>
   rotateLedgerKey fhe_accept alice 0x33 [] stored1 =
     Inr (stored1\<lparr>m_ledgerKey := (m_ledgerKey stored1)(alice := 0x33)\<rparr>,
          [AllowThis 0x33, Allow 0x33 alice, LedgerKeyRotated alice]) \<and>
   getEntry (stored1\<lparr>m_ledgerKey := (m_ledgerKey stored1)(alice := 0x33)\<rparr>) alice 0 =
     Inr (105, ''ciphertext:one'')"
proof -
  have nb: "\<not> m_hasLedger stored1 bob" and ha: "m_hasLedger stored1 alice"
    by (simp_all add: stored1_def alice_def bob_def)
  have f: "fhe_accept alice 0x33 [] = Some 0x33"
    by (simp add: fhe_accept_def)
  note tb = rotateLedgerKey_frame [where s = stored1 and owner = bob and fhe = fhe_accept
      and k = "0x33" and p = "[]"]
  note ta = rotateLedgerKey_frame [where s = stored1 and owner = alice and fhe = fhe_accept
      and k = "0x33" and p = "[]"]
  have 1: "rotateLedgerKey fhe_accept bob 0x33 [] stored1 = Inl (LedgerNotFound bob)"
    using tb [THEN conjunct1] nb by (rule mp)
  have "case fhe_accept alice 0x33 [] of
         None \<Rightarrow> rotateLedgerKey fhe_accept alice 0x33 [] stored1 = Inl InvalidInputProof
       | Some key \<Rightarrow>
           rotateLedgerKey fhe_accept alice 0x33 [] stored1 =
             Inr (stored1\<lparr>m_ledgerKey := (m_ledgerKey stored1)(alice := key)\<rparr>,
                  [AllowThis key, Allow key alice, LedgerKeyRotated alice])"
    using ta [THEN conjunct2, THEN conjunct1] ha by (rule mp)
  then have 2: "rotateLedgerKey fhe_accept alice 0x33 [] stored1 =
     Inr (stored1\<lparr>m_ledgerKey := (m_ledgerKey stored1)(alice := 0x33)\<rparr>,
          [AllowThis 0x33, Allow 0x33 alice, LedgerKeyRotated alice])"
    by (simp only: f option.case)
  have "\<forall>other i. getEntry (stored1\<lparr>m_ledgerKey := (m_ledgerKey stored1)(alice := 0x33)\<rparr>) other i =
      getEntry stored1 other i"
    using ta [THEN conjunct2, THEN conjunct2, rule_format, OF 2] by (elim conjE)
  then have "getEntry (stored1\<lparr>m_ledgerKey := (m_ledgerKey stored1)(alice := 0x33)\<rparr>) alice 0 =
      getEntry stored1 alice 0"
    by (elim allE)
  also have "\<dots> = Inr (105, ''ciphertext:one'')"
    by (simp add: getEntry_def stored1_def Let_def)
  finally have 3: "getEntry (stored1\<lparr>m_ledgerKey := (m_ledgerKey stored1)(alice := 0x33)\<rparr>) alice 0 =
      Inr (105, ''ciphertext:one'')" .
  from 1 2 3 show ?thesis by (intro conjI)
qed

section \<open>Properties of the cipher module\<close>

subsection \<open>A small platform for concrete runs\<close>

text \<open>
  Concrete runs of the module need some platform. This one is not AES-GCM or SHA-256
  but has their interface: a 32-byte digest, a ciphertext that is the shifted
  plaintext followed by a 16-byte tag computed from key, nonce and plaintext, a
  decryption that checks the tag, and twelve fixed bytes as the random nonce.
\<close>

definition toyTag :: "byte list \<Rightarrow> byte list \<Rightarrow> byte list \<Rightarrow> byte list" where
  "toyTag key iv p =
     (let t = sum_list key + sum_list iv + sum_list p
      in [t, t, t, t, t, t, t, t, t, t, t, t, t, t, t, t])"

definition toyEncrypt :: "byte list \<Rightarrow> byte list \<Rightarrow> byte list \<Rightarrow> byte list" where
  "toyEncrypt key iv p = map (\<lambda>b. b + 1) p @ toyTag key iv p"

definition toyDecrypt :: "byte list \<Rightarrow> byte list \<Rightarrow> byte list \<Rightarrow> byte list option" where
  "toyDecrypt key iv c =
     (if length c < 16 then None
      else let p = map (\<lambda>b. b - 1) (take (length c - 16) c)
           in if drop (length c - 16) c = toyTag key iv p then Some p else None)"

definition toyDigest :: "byte list \<Rightarrow> byte list" where
  "toyDigest bs =
     take 32 (bs @ [0, 0, 0, 0, 0, 0, 0, 0, 0, 0, 0, 0, 0, 0, 0, 0,
                    0, 0, 0, 0, 0, 0, 0, 0, 0, 0, 0, 0, 0, 0, 0, 0])"

definition toyCrypto :: webcrypto where
  "toyCrypto =
     \<lparr>digestSHA256 = toyDigest,
      encryptAESGCM = toyEncrypt,
      decryptAESGCM = toyDecrypt,
      getRandomValues = (\<lambda>n. map word_of_nat [0..<n])\<rparr>"

lemma js_sl1: "js ''sl1'' = [0x73, 0x6C, 0x31]"
  by (simp add: js_def)

lemma split_not_Nil: "split payload sep \<noteq> []"
  by (cases payload) (auto split: list.splits)

lemma element_0_split: "element (split payload sep) 0 = Some (hd (split payload sep))"
  using split_not_Nil [of payload sep] by (simp add: element_def hd_conv_nth)

text \<open>
  Claim C6 (unsupported format). When the first segment of the payload between
  \<^verbatim>\<open>:\<close> separators is not exactly \<^verbatim>\<open>sl1\<close>, or there are fewer than three segments,
  or the second or the third segment is empty, \<^verbatim>\<open>decryptWithAddressKey\<close> throws
  \<^verbatim>\<open>Unsupported ciphertext format\<close> and has made no call into the platform's
  cryptography, whatever the key argument is. Conversely a call that does not end in
  that error had \<^verbatim>\<open>sl1\<close> as its first segment.
\<close>

theorem decrypt_unsupported_format:
  "((let parts = split payload 0x3A
     in parts ! 0 \<noteq> js ''sl1'' \<or> length parts < 3 \<or> parts ! 1 = [] \<or> parts ! 2 = [])
    \<longrightarrow> decryptWithAddressKey wc payload addressKey =
          ([], Inl (Error (js ''Unsupported ciphertext format'')))) \<and>
   (decryptWithAddressKey wc payload addressKey \<noteq>
       ([], Inl (Error (js ''Unsupported ciphertext format'')))
    \<longrightarrow> split payload 0x3A ! 0 = js ''sl1'')"
proof -
  have hd0: "split payload 0x3A ! 0 = hd (split payload 0x3A)"
    using split_not_Nil [of payload "0x3A"] by (simp add: hd_conv_nth)
  have 1: "(let parts = split payload 0x3A
    in parts ! 0 \<noteq> js ''sl1'' \<or> length parts < 3 \<or> parts ! 1 = [] \<or> parts ! 2 = [])
   \<longrightarrow> decryptWithAddressKey wc payload addressKey =
         ([], Inl (Error (js ''Unsupported ciphertext format'')))"
    using hd0
    by (auto simp: decryptWithAddressKey_def Let_def element_0_split falsy_def element_def)
  have 2: "decryptWithAddressKey wc payload addressKey \<noteq>
      ([], Inl (Error (js ''Unsupported ciphertext format'')))
   \<longrightarrow> split payload 0x3A ! 0 = js ''sl1''"
    using hd0
    by (auto simp: decryptWithAddressKey_def Let_def element_0_split split: if_splits)
  from 1 2 show ?thesis by (rule conjI)
qed

lemma split_sl2: "split (js ''sl2:AAAA:BBBB'') 0x3A = [js ''sl2'', js ''AAAA'', js ''BBBB'']"
  by (simp add: js_def)

lemma split_one_segment: "split (js ''sl1:AAAA'') 0x3A = [js ''sl1'', js ''AAAA'']"
  by (simp add: js_def)

theorem decrypt_unsupported_format_witness:
  "decryptWithAddressKey toyCrypto (js ''sl2:AAAA:BBBB'')
       (js ''0x52908400098527886E0F7030069857D2E4169EE7'') =
     ([], Inl (Error (js ''Unsupported ciphertext format''))) \<and>
   decryptWithAddressKey toyCrypto (js ''sl1:AAAA'')
       (js ''0x52908400098527886E0F7030069857D2E4169EE7'') =
     ([], Inl (Error (js ''Unsupported ciphertext format'')))"
proof -
  have a: "let parts = split (js ''sl2:AAAA:BBBB'') 0x3A
    in parts ! 0 \<noteq> js ''sl1'' \<or> length parts < 3 \<or> parts ! 1 = [] \<or> parts ! 2 = []"
    by (simp add: split_sl2) (simp add: js_def)
  have b: "let parts = split (js ''sl1:AAAA'') 0x3A
    in parts ! 0 \<noteq> js ''sl1'' \<or> length parts < 3 \<or> parts ! 1 = [] \<or> parts ! 2 = []"
    by (simp add: split_one_segment)
  show ?thesis
    using decrypt_unsupported_format [THEN conjunct1, THEN mp, OF a]
      decrypt_unsupported_format [THEN conjunct1, THEN mp, OF b]
    by (rule conjI)
qed

text \<open>
  Claim C10 (malformed key), as the code has it. \<^verbatim>\<open>encryptWithAddressKey\<close> with a key
  that is not \<^verbatim>\<open>0x\<close> and forty hexadecimal digits throws the invalid-address error
  and has made no call into the platform's cryptography. \<^verbatim>\<open>decryptWithAddressKey\<close>
  checks the payload's format before the key: with such a key it also makes no call
  into the platform's cryptography and returns no m, and it throws the
  invalid-address error when the payload has the three segments, the unsupported-format
  error otherwise.
\<close>

theorem malformed_key_rejected:
  assumes "\<not> ADDRESS_RE addressKey"
  shows "encryptWithAddressKey wc m addressKey =
           ([], Inl (Error (js ''Invalid address key: '' @ addressKey))) \<and>
         decryptWithAddressKey wc payload addressKey =
           ([], Inl (Error
              (if (let parts = split payload 0x3A
                   in parts ! 0 \<noteq> js ''sl1'' \<or> length parts < 3 \<or> parts ! 1 = [] \<or> parts ! 2 = [])
               then js ''Unsupported ciphertext format''
               else js ''Invalid address key: '' @ addressKey)))"
proof -
  have d: "deriveAesKeyFromAddress wc addressKey =
      ([], Inl (Error (js ''Invalid address key: '' @ addressKey)))"
    using assms by (simp add: deriveAesKeyFromAddress_def assertAddress_def)
  have e: "encryptWithAddressKey wc m addressKey =
      ([], Inl (Error (js ''Invalid address key: '' @ addressKey)))"
    by (simp add: encryptWithAddressKey_def d)
  have hd0: "split payload 0x3A ! 0 = hd (split payload 0x3A)"
    using split_not_Nil [of payload "0x3A"] by (simp add: hd_conv_nth)
  have f: "decryptWithAddressKey wc payload addressKey =
           ([], Inl (Error
              (if (let parts = split payload 0x3A
                   in parts ! 0 \<noteq> js ''sl1'' \<or> length parts < 3 \<or> parts ! 1 = [] \<or> parts ! 2 = [])
               then js ''Unsupported ciphertext format''
               else js ''Invalid address key: '' @ addressKey)))"
    using hd0
    by (auto simp: decryptWithAddressKey_def Let_def d element_0_split falsy_def element_def)
  from e f show ?thesis by (rule conjI)
qed

lemma bad_key: "\<not> ADDRESS_RE (js ''0x1234'')"
  by (simp add: ADDRESS_RE_def js_def)

lemma split_three_segments:
  "split (js ''sl1:AAAA:BBBB'') 0x3A = [js ''sl1'', js ''AAAA'', js ''BBBB'']"
  by (simp add: js_def)

theorem malformed_key_rejected_witness:
  "encryptWithAddressKey toyCrypto (js ''hello'') (js ''0x1234'') =
     ([], Inl (Error (js ''Invalid address key: 0x1234''))) \<and>
   decryptWithAddressKey toyCrypto (js ''sl1:AAAA:BBBB'') (js ''0x1234'') =
     ([], Inl (Error (js ''Invalid address key: 0x1234'')))"
proof -
  have n: "\<not> (let parts = split (js ''sl1:AAAA:BBBB'') 0x3A
    in parts ! 0 \<noteq> js ''sl1'' \<or> length parts < 3 \<or> parts ! 1 = [] \<or> parts ! 2 = [])"
    by (simp add: split_three_segments) (simp add: js_def)
  have m: "js ''Invalid address key: '' @ js ''0x1234'' = js ''Invalid address key: 0x1234''"
    by (simp add: js_def)
  show ?thesis
    using malformed_key_rejected [OF bad_key, of toyCrypto "js ''hello''" "js ''sl1:AAAA:BBBB''"]
    by (simp only: n m if_False)
qed

text \<open>The claim as written fails: with a malformed key and a payload without the
  three segments, decryption throws the unsupported-format error, not the
  invalid-address error.\<close>

theorem malformed_key_counterexample:
  "\<not> ADDRESS_RE (js ''0x1234'') \<and>
   snd (decryptWithAddressKey toyCrypto (js ''sl1:AAAA'') (js ''0x1234'')) =
     Inl (Error (js ''Unsupported ciphertext format'')) \<and>
   snd (decryptWithAddressKey toyCrypto (js ''sl1:AAAA'') (js ''0x1234'')) \<noteq>
     Inl (Error (js ''Invalid address key: 0x1234''))"
proof -
  have "decryptWithAddressKey toyCrypto (js ''sl1:AAAA'') (js ''0x1234'') =
      ([], Inl (Error (js ''Unsupported ciphertext format'')))"
    by (simp add: decryptWithAddressKey_def Let_def split_one_segment element_def falsy_def)
  moreover have "js ''Unsupported ciphertext format'' \<noteq> js ''Invalid address key: 0x1234''"
    by (simp add: js_def)
  ultimately show ?thesis using bad_key by simp
qed

subsection \<open>A concrete run\<close>

text \<open>A sample clear key, and how the module, on the small platform, reads the wire string it
  produces for the plaintext \<^verbatim>\<open>hi\<close> under that key.\<close>

definition sampleKey :: jsstring where
  "sampleKey = js ''0x52908400098527886E0F7030069857D2E4169EE7''"

lemma ADDRESS_RE_sampleKey: "ADDRESS_RE sampleKey"
  by (simp add: sampleKey_def ADDRESS_RE_def js_def isHexDigit_def)

lemma hexToBytes_sampleKey:
  "hexToBytes sampleKey =
     [82, 144, 132, 0, 9, 133, 39, 136, 110, 15, 112, 48, 6, 152, 87, 210, 228, 22, 158, 231]"
  by (simp add: sampleKey_def hexToBytes_def js_def parseInt16_def slice_def isHexDigit_def
        hexValue_def upt_rec)

definition toyKey :: "byte list" where
  "toyKey = [82, 144, 132, 0, 9, 133, 39, 136, 110, 15, 112, 48, 6, 152, 87, 210, 228, 22, 158, 231,
             0, 0, 0, 0, 0, 0, 0, 0, 0, 0, 0, 0]"

lemma derive_sampleKey:
  "deriveAesKeyFromAddress toyCrypto sampleKey =
     ([Digest (hexToBytes sampleKey), ImportKey toyKey], Inr toyKey)"
  by (simp add: deriveAesKeyFromAddress_def assertAddress_def ADDRESS_RE_sampleKey Let_def
        toyCrypto_def toyDigest_def hexToBytes_sampleKey toyKey_def)

lemma split_hi:
  "split (js ''sl1:AAECAwQFBgcICQoL:aWoZGRkZGRkZGRkZGRkZGRkZ'') 0x3A =
     [js ''sl1'', js ''AAECAwQFBgcICQoL'', js ''aWoZGRkZGRkZGRkZGRkZGRkZ'']"
  by (simp add: js_def)

lemma js_ne: "js (c # cs) \<noteq> []"
  by (simp add: js_def)

lemma base64ToBytes_iv: "base64ToBytes (js ''AAECAwQFBgcICQoL'') = Inr [0, 1, 2, 3, 4, 5, 6, 7, 8, 9, 10, 11]"
  by (simp add: base64ToBytes_def atob_def js_def stripPadding_def isAsciiWhitespace_def b64index_def)

lemma base64ToBytes_hi:
  "base64ToBytes (js ''aWoZGRkZGRkZGRkZGRkZGRkZ'') =
     Inr [105, 106, 25, 25, 25, 25, 25, 25, 25, 25, 25, 25, 25, 25, 25, 25, 25, 25]"
  by (simp add: base64ToBytes_def atob_def js_def stripPadding_def isAsciiWhitespace_def b64index_def)

lemma toyDecrypt_hi:
  "toyDecrypt toyKey [0, 1, 2, 3, 4, 5, 6, 7, 8, 9, 10, 11]
     [105, 106, 25, 25, 25, 25, 25, 25, 25, 25, 25, 25, 25, 25, 25, 25, 25, 25] = Some [104, 105]"
  by (simp add: toyDecrypt_def toyTag_def toyKey_def Let_def)

lemma decode_hi: "TextDecoder_decode [104, 105] = js ''hi''"
  by (simp add: TextDecoder_decode_def utf16Units_def js_def)

lemma decrypt_hi:
  "snd (decryptWithAddressKey toyCrypto (js ''sl1:AAECAwQFBgcICQoL:aWoZGRkZGRkZGRkZGRkZGRkZ'') sampleKey) =
     Inr (js ''hi'')"
proof -
  have "decryptAESGCM toyCrypto = toyDecrypt" by (simp add: toyCrypto_def)
  then show ?thesis
    by (simp add: decryptWithAddressKey_def split_hi element_def falsy_def Let_def derive_sampleKey
        base64ToBytes_iv base64ToBytes_hi toyDecrypt_hi decode_hi js_ne)
qed

subsection \<open>Base64 there and back\<close>

text \<open>
  \<^verbatim>\<open>base64ToBytes\<close> gives back the bytes that \<^verbatim>\<open>bytesToBase64\<close> was given. The
  encoding is split into the six-bit values of the bytes (\<open>sextets\<close>), their code units,
  and the padding; the decoder strips the padding and inverts each step.
\<close>

lemma unat_code_unit: "k < 65536 \<Longrightarrow> unat (word_of_nat k :: code_unit) = k"
  by (simp add: unat_of_nat)

fun sextets :: "nat list \<Rightarrow> nat list" where
  "sextets (a # b # c # rest) =
     [a div 4, (a mod 4) * 16 + b div 16, (b mod 16) * 4 + c div 64, c mod 64] @ sextets rest"
| "sextets [a, b] = [a div 4, (a mod 4) * 16 + b div 16, (b mod 16) * 4]"
| "sextets [a] = [a div 4, (a mod 4) * 16]"
| "sextets [] = []"

definition padding :: "nat list \<Rightarrow> jsstring" where
  "padding ns = (if length ns mod 3 = 1 then [61, 61] else if length ns mod 3 = 2 then [61] else [])"

lemma b64encode_sextets: "b64encode ns = map b64char (sextets ns) @ padding ns"
  by (induction ns rule: sextets.induct) (simp_all add: padding_def)

definition b64code :: "nat \<Rightarrow> nat" where
  "b64code n = (if n < 26 then 65 + n else if n < 52 then 97 + (n - 26)
                else if n < 62 then 48 + (n - 52) else if n = 62 then 43 else 47)"

lemma b64char_code: "b64char n = word_of_nat (b64code n)"
  by (simp only: b64char_def b64code_def)

lemma b64code_less: "b64code n < 65536"
  unfolding b64code_def by (simp split: if_splits) arith

lemma unat_b64char: "unat (b64char n) = b64code n"
  unfolding b64char_code using b64code_less by (rule unat_code_unit)

definition b64value :: "nat \<Rightarrow> nat option" where
  "b64value u =
     (if 65 \<le> u \<and> u \<le> 90 then Some (u - 65)
      else if 97 \<le> u \<and> u \<le> 122 then Some (u - 97 + 26)
      else if 48 \<le> u \<and> u \<le> 57 then Some (u - 48 + 52)
      else if u = 43 then Some 62
      else if u = 47 then Some 63
      else None)"

lemma code_unit_eq_iff: "(c = numeral k) = (unat c = unat (numeral k :: code_unit))" for c :: code_unit
  by (simp only: word_unat_eq_iff)

lemma b64index_value: "b64index c = b64value (unat c)"
  by (simp add: b64index_def b64value_def word_le_nat_alt code_unit_eq_iff)

lemma b64value_code: "n < 64 \<Longrightarrow> b64value (b64code n) = Some n"
  unfolding b64value_def b64code_def by (simp split: if_splits) arith

lemma b64index_b64char: "n < 64 \<Longrightarrow> b64index (b64char n) = Some n"
  by (simp add: b64index_value unat_b64char b64value_code)

lemma div16_less: "b < 256 \<Longrightarrow> b div 16 < (16::nat)"
  by (simp add: div_less_iff_less_mult)

lemma div64_less: "c < 256 \<Longrightarrow> c div 64 < (4::nat)"
  by (simp add: div_less_iff_less_mult)

lemma div4_less: "a < 256 \<Longrightarrow> a div 4 < (64::nat)"
  by (simp add: div_less_iff_less_mult)

lemma quantum_a: "b < 256 \<Longrightarrow> (a div 4) * 4 + ((a mod 4) * 16 + b div 16) div 16 = (a::nat)"
  using div16_less [of b] by simp

lemma quantum_b:
  "b < 256 \<Longrightarrow> c < 256 \<Longrightarrow>
   (((a mod 4) * 16 + b div 16) mod 16) * 16 + ((b mod 16) * 4 + c div 64) div 4 = (b::nat)"
  using div16_less [of b] div64_less [of c] by simp

lemma quantum_c: "c < 256 \<Longrightarrow> (((b mod 16) * 4 + c div 64) mod 4) * 64 + c mod 64 = (c::nat)"
  using div64_less [of c] by simp

lemma quantum_b2:
  "b < 256 \<Longrightarrow> (((a mod 4) * 16 + b div 16) mod 16) * 16 + ((b mod 16) * 4) div 4 = (b::nat)"
  using div16_less [of b] by simp

lemma quantum_a1: "(a div 4) * 4 + ((a mod 4) * 16) div 16 = (a::nat)"
  by simp

lemma sextet_b: "b < 256 \<Longrightarrow> (a mod 4) * 16 + b div 16 < (64::nat)"
proof -
  assume "b < 256"
  then have "b div 16 < 16" by (rule div16_less)
  moreover have "a mod 4 \<le> 3" by simp
  then have "(a mod 4) * 16 \<le> 3 * 16" by (rule mult_le_mono1)
  ultimately show ?thesis by simp
qed

lemma sextet_c: "c < 256 \<Longrightarrow> (b mod 16) * 4 + c div 64 < (64::nat)"
proof -
  assume "c < 256"
  then have "c div 64 < 4" by (rule div64_less)
  moreover have "b mod 16 \<le> 15" by simp
  then have "(b mod 16) * 4 \<le> 15 * 4" by (rule mult_le_mono1)
  ultimately show ?thesis by simp
qed

lemma sextet_a1: "(a mod 4) * 16 < (64::nat)"
proof -
  have "a mod 4 \<le> 3" by simp
  then have "(a mod 4) * 16 \<le> 3 * 16" by (rule mult_le_mono1)
  then show ?thesis by simp
qed

lemma sextet_b2: "(b mod 16) * 4 < (64::nat)"
proof -
  have "b mod 16 \<le> 15" by simp
  then have "(b mod 16) * 4 \<le> 15 * 4" by (rule mult_le_mono1)
  then show ?thesis by simp
qed

lemma sextets_bound: "list_all (\<lambda>n. n < 256) ns \<Longrightarrow> list_all (\<lambda>s. s < 64) (sextets ns)"
  by (induction ns rule: sextets.induct)
     (simp_all add: div4_less sextet_b sextet_c sextet_a1 sextet_b2)

lemma b64decode_sextets: "list_all (\<lambda>n. n < 256) ns \<Longrightarrow> b64decode (sextets ns) = ns"
proof (induction ns rule: sextets.induct)
  case (1 a b c rest)
  then have b: "b < 256" and c: "c < 256" and r: "b64decode (sextets rest) = rest"
    by simp_all
  have "b64decode (sextets (a # b # c # rest)) =
      [(a div 4) * 4 + ((a mod 4) * 16 + b div 16) div 16,
       (((a mod 4) * 16 + b div 16) mod 16) * 16 + ((b mod 16) * 4 + c div 64) div 4,
       (((b mod 16) * 4 + c div 64) mod 4) * 64 + c mod 64] @ b64decode (sextets rest)"
    by (simp only: sextets.simps b64decode.simps append_Cons append_Nil)
  also have "\<dots> = a # b # c # rest"
    by (simp only: quantum_a [OF b] quantum_b [OF b c] quantum_c [OF c] r append_Cons append_Nil)
  finally show ?case .
next
  case (2 a b)
  then have b: "b < 256" by simp
  have "b64decode (sextets [a, b]) =
      [(a div 4) * 4 + ((a mod 4) * 16 + b div 16) div 16,
       (((a mod 4) * 16 + b div 16) mod 16) * 16 + ((b mod 16) * 4) div 4]"
    by (simp only: sextets.simps b64decode.simps)
  also have "\<dots> = [a, b]"
    by (simp only: quantum_a [OF b] quantum_b2 [OF b])
  finally show ?case .
next
  case (3 a)
  have "b64decode (sextets [a]) = [(a div 4) * 4 + ((a mod 4) * 16) div 16]"
    by (simp only: sextets.simps b64decode.simps)
  also have "\<dots> = [a]"
    by (simp only: quantum_a1)
  finally show ?case .
next
  case 4
  show ?case by simp
qed

lemma length_sextets:
  "length (sextets ns) = 4 * (length ns div 3) +
     (if length ns mod 3 = 0 then 0 else length ns mod 3 + 1)"
proof (induction ns rule: sextets.induct)
  case (1 a b c rest)
  have "length (a # b # c # rest) = length rest + 3" by simp
  then have d: "length (a # b # c # rest) div 3 = length rest div 3 + 1"
    and m: "length (a # b # c # rest) mod 3 = length rest mod 3"
    by simp_all
  show ?case unfolding d m using 1 by simp
qed simp_all

lemma drop_last1: "d \<noteq> [] \<Longrightarrow> drop (length d - 1) d = [last d]"
  by (induction d rule: rev_induct) simp_all

lemma stripPadding_none:
  assumes "d = [] \<or> last d \<noteq> 61"
  shows "stripPadding d = d"
proof (cases "d = []")
  case True
  then show ?thesis by (simp add: stripPadding_def)
next
  case False
  then have l: "last d \<noteq> 61" using assms by simp
  have 1: "drop (length d - 1) d \<noteq> [61]"
    using drop_last1 [OF False] l by simp
  have 2: "drop (length d - 2) d \<noteq> [61, 61]" if "2 \<le> length d"
  proof
    assume e: "drop (length d - 2) d = [61, 61]"
    have "last (drop (length d - 2) d) = last d"
      using that False by (intro last_drop) simp
    then show False using e l by simp
  qed
  have n2: "\<not> (2 \<le> length d \<and> drop (length d - 2) d = [61, 61])"
    using 2 by blast
  have n1: "\<not> (1 \<le> length d \<and> drop (length d - 1) d = [61])"
    using 1 by blast
  show ?thesis unfolding stripPadding_def by (simp only: n1 n2 if_False if_cancel)
qed

lemma stripPadding_one:
  assumes "length (d @ [61]) mod 4 = 0" and "d \<noteq> []" and "last d \<noteq> 61"
  shows "stripPadding (d @ [61]) = d"
proof -
  have "drop (length d - 1) (d @ [61]) = [last d, 61]"
    using assms(2) drop_last1 [OF assms(2)] by simp
  then have "drop (length (d @ [61]) - 2) (d @ [61]) \<noteq> [61, 61]"
    using assms(3) by simp
  then show ?thesis using assms(1) by (simp add: stripPadding_def)
qed

lemma stripPadding_two:
  assumes "length (d @ [61, 61]) mod 4 = 0"
  shows "stripPadding (d @ [61, 61]) = d"
  using assms by (simp add: stripPadding_def)

lemma less3: "(x::nat) < 3 \<Longrightarrow> x = 0 \<or> x = 1 \<or> x = 2"
  by arith

lemma b64index_special:
  "b64index 61 = None" "b64index 0x3A = None"
  "b64index 0x09 = None" "b64index 0x0A = None" "b64index 0x0C = None" "b64index 0x0D = None"
  "b64index 0x20 = None"
  by (simp_all add: b64index_def)

lemma alphabet_not_special:
  assumes "b64index c \<noteq> None"
  shows "c \<noteq> 61" and "c \<noteq> 0x3A" and "\<not> isAsciiWhitespace c"
  using assms b64index_special by (auto simp: isAsciiWhitespace_def)

definition alphabetic :: "jsstring \<Rightarrow> bool" where
  "alphabetic d = list_all (\<lambda>c. b64index c \<noteq> None) d"

lemma alphabetic_core:
  assumes "list_all (\<lambda>n. n < 256) ns"
  shows "alphabetic (map b64char (sextets ns))"
proof -
  have "list_all (\<lambda>s. s < 64) (sextets ns)"
    using assms by (rule sextets_bound)
  then show ?thesis
    by (simp add: alphabetic_def list_all_iff b64index_b64char)
qed

lemma index_core:
  assumes "list_all (\<lambda>n. n < 256) ns"
  shows "map (\<lambda>c. the (b64index c)) (map b64char (sextets ns)) = sextets ns"
proof -
  have "list_all (\<lambda>s. s < 64) (sextets ns)"
    using assms by (rule sextets_bound)
  then have "map (\<lambda>s. the (b64index (b64char s))) (sextets ns) = map (\<lambda>s. s) (sextets ns)"
    by (intro map_cong refl) (simp add: list_all_iff b64index_b64char)
  then show ?thesis by (simp add: comp_def)
qed

lemma alphabetic_last: "alphabetic d \<Longrightarrow> d = [] \<or> last d \<noteq> 61"
proof (cases "d = []")
  case False
  assume "alphabetic d"
  then have "b64index (last d) \<noteq> None"
    using False last_in_set [OF False] by (simp add: alphabetic_def list_all_iff)
  then show ?thesis using alphabet_not_special(1) by blast
qed simp

lemma alphabetic_filter:
  assumes "alphabetic d"
  shows "filter (\<lambda>c. \<not> isAsciiWhitespace c) (d @ p) = d @ filter (\<lambda>c. \<not> isAsciiWhitespace c) p"
proof -
  have "filter (\<lambda>c. \<not> isAsciiWhitespace c) d = d"
    using assms alphabet_not_special(3) by (simp add: alphabetic_def list_all_iff)
  then show ?thesis by simp
qed

lemma padding_filter: "filter (\<lambda>c. \<not> isAsciiWhitespace c) (padding ns) = padding ns"
  by (simp add: padding_def isAsciiWhitespace_def)

lemma stripPadding_encoded:
  assumes "list_all (\<lambda>n. n < 256) ns"
  shows "stripPadding (map b64char (sextets ns) @ padding ns) = map b64char (sextets ns)"
proof -
  let ?core = "map b64char (sextets ns)"
  have a: "alphabetic ?core" using assms by (rule alphabetic_core)
  have len: "length ?core = 4 * (length ns div 3) +
     (if length ns mod 3 = 0 then 0 else length ns mod 3 + 1)"
    by (simp add: length_sextets)
  have "length ns mod 3 < 3" by simp
  then consider "length ns mod 3 = 0" | "length ns mod 3 = 1" | "length ns mod 3 = 2"
    by (rule less3 [THEN disjE]) auto
  then show ?thesis
  proof cases
    case 1
    then have "padding ns = []" by (simp add: padding_def)
    then show ?thesis using alphabetic_last [OF a] by (simp add: stripPadding_none)
  next
    case 2
    then have p: "padding ns = [61, 61]" by (simp add: padding_def)
    have "length (?core @ [61, 61]) mod 4 = 0"
      unfolding length_append len using 2 by simp
    then show ?thesis unfolding p by (rule stripPadding_two)
  next
    case 3
    then have p: "padding ns = [61]" by (simp add: padding_def)
    have l: "length (?core @ [61]) mod 4 = 0"
      unfolding length_append len using 3 by simp
    have ne: "?core \<noteq> []" using len 3 by auto
    then have "last ?core \<noteq> 61" using alphabetic_last [OF a] by simp
    with l ne show ?thesis unfolding p by (intro stripPadding_one)
  qed
qed

lemma length_core_mod4:
  "length (map b64char (sextets ns)) mod 4 \<noteq> 1"
proof -
  have m: "length ns mod 3 < 3" by simp
  have "length (map b64char (sextets ns)) mod 4 =
      (if length ns mod 3 = 0 then 0 else length ns mod 3 + 1) mod 4"
    by (simp add: length_sextets)
  then show ?thesis using m by (auto split: if_splits)
qed

lemma atob_b64encode:
  assumes "list_all (\<lambda>n. n < 256) ns"
  shows "atob (b64encode ns) = Inr (map word_of_nat ns)"
proof -
  let ?core = "map b64char (sextets ns)"
  have a: "alphabetic ?core" using assms by (rule alphabetic_core)
  have f: "filter (\<lambda>c. \<not> isAsciiWhitespace c) (b64encode ns) = ?core @ padding ns"
    unfolding b64encode_sextets by (simp only: alphabetic_filter [OF a] padding_filter)
  have s: "stripPadding (?core @ padding ns) = ?core"
    using assms by (rule stripPadding_encoded)
  have n: "\<not> list_ex (\<lambda>c. b64index c = None) ?core"
    using a by (simp add: alphabetic_def list_all_iff list_ex_iff)
  have d: "b64decode (map (\<lambda>c. the (b64index c)) ?core) = ns"
    by (simp only: index_core [OF assms] b64decode_sextets [OF assms])
  show ?thesis
    unfolding atob_def f s Let_def using n length_core_mod4 [of ns] by (simp only: d if_False)
qed

lemma binaryString_map: "binaryString bs = map ucast bs"
proof (induction bs rule: binaryString.induct)
  case (1 bs)
  show ?case
  proof (cases "bs = []")
    case True
    then show ?thesis by (simp add: binaryString.simps)
  next
    case False
    have "binaryString bs = map ucast (take 0x8000 bs) @ binaryString (drop 0x8000 bs)"
      using False by (subst binaryString.simps) simp
    also have "\<dots> = map ucast (take 0x8000 bs) @ map ucast (drop 0x8000 bs)"
      using 1 [OF False] by simp
    also have "\<dots> = map ucast bs"
      by (simp flip: map_append)
    finally show ?thesis .
  qed
qed

lemma unat_byte_less: "unat b < 256" for b :: byte
  using unsigned_less [of b, where ?'a = nat] by simp

lemma unat_ucast_byte: "unat (ucast b :: code_unit) = unat b" for b :: byte
proof -
  have "unat b < 2 ^ 16" using unat_byte_less [of b] by simp
  then have "take_bit 16 (unat b) = unat b" by (simp only: take_bit_nat_eq_self)
  then show ?thesis by (simp add: unsigned_ucast_eq)
qed

lemma byte_not_above: "\<not> 0xFF < (ucast b :: code_unit)" for b :: byte
  using unat_byte_less [of b] by (simp add: word_less_nat_alt unat_ucast_byte)

lemma bytesToBase64_encode: "bytesToBase64 bs = Inr (b64encode (map unat bs))"
proof -
  have "\<not> list_ex (\<lambda>c. 0xFF < c) (map ucast bs :: jsstring)"
    using byte_not_above by (simp add: list_ex_iff)
  then show ?thesis
    by (simp add: bytesToBase64_def binaryString_map btoa_def comp_def unat_ucast_byte)
qed

lemma bytes_below: "list_all (\<lambda>n. n < 256) (map unat bs)" for bs :: "byte list"
  using unat_byte_less by (simp add: list_all_iff)

lemma base64ToBytes_encode: "base64ToBytes (b64encode (map unat bs)) = Inr bs" for bs :: "byte list"
proof -
  have "atob (b64encode (map unat bs)) = Inr (map word_of_nat (map unat bs))"
    using bytes_below by (rule atob_b64encode)
  moreover have "(ucast (word_of_nat (unat b) :: code_unit) :: byte) = b" for b :: byte
    by (simp add: ucast_up_ucast_id is_up)
  ultimately show ?thesis
    by (simp add: base64ToBytes_def comp_def)
qed

subsection \<open>The wire string\<close>

text \<open>
  The base64 text has no \<^verbatim>\<open>:\<close>, so \<^verbatim>\<open>split\<close> finds exactly the three segments of a
  wire string; \<open>wire\<close> is the string that encryption builds from nonce and ciphertext.
\<close>

lemma split_no_sep: "sep \<notin> set xs \<Longrightarrow> split xs sep = [xs]"
  by (induction xs) auto

lemma split_at_sep: "sep \<notin> set xs \<Longrightarrow> split (xs @ sep # ys) sep = xs # split ys sep"
  by (induction xs) auto

lemma padding_no_colon: "0x3A \<notin> set (padding ns)"
  by (simp add: padding_def)

lemma b64encode_no_colon:
  assumes "list_all (\<lambda>n. n < 256) ns"
  shows "0x3A \<notin> set (b64encode ns)"
proof -
  have "alphabetic (map b64char (sextets ns))" using assms by (rule alphabetic_core)
  then have "0x3A \<notin> set (map b64char (sextets ns))"
    using alphabet_not_special(2) unfolding alphabetic_def list_all_iff by blast
  then show ?thesis
    unfolding b64encode_sextets using padding_no_colon [of ns] by simp
qed

lemma b64encode_not_Nil: "ns \<noteq> [] \<Longrightarrow> b64encode ns \<noteq> []"
  by (cases ns rule: b64encode.cases) simp_all

lemma js_colon: "js '':'' = [0x3A]"
  by (simp add: js_def)

lemma js_sl1_colon: "js ''sl1:'' = js ''sl1'' @ [0x3A]"
  by (simp add: js_def)

lemma sl1_no_colon: "0x3A \<notin> set (js ''sl1'')"
  by (simp add: js_def)

lemma split_wire:
  assumes "0x3A \<notin> set ivB64" and "0x3A \<notin> set cipherB64"
  shows "split (js ''sl1:'' @ ivB64 @ js '':'' @ cipherB64) 0x3A = [js ''sl1'', ivB64, cipherB64]"
proof -
  have 1: "split (js ''sl1'' @ 0x3A # (ivB64 @ 0x3A # cipherB64)) 0x3A =
      js ''sl1'' # split (ivB64 @ 0x3A # cipherB64) 0x3A"
    using sl1_no_colon by (rule split_at_sep)
  have 2: "split (ivB64 @ 0x3A # cipherB64) 0x3A = ivB64 # split cipherB64 0x3A"
    using assms(1) by (rule split_at_sep)
  have 3: "split cipherB64 0x3A = [cipherB64]"
    using assms(2) by (rule split_no_sep)
  have "js ''sl1:'' @ ivB64 @ js '':'' @ cipherB64 = js ''sl1'' @ 0x3A # (ivB64 @ 0x3A # cipherB64)"
    by (simp add: js_sl1_colon js_colon)
  then show ?thesis by (simp only: 1 2 3)
qed

lemma derive_conforming:
  assumes "conforming wc" and "ADDRESS_RE addressKey"
  shows "deriveAesKeyFromAddress wc addressKey =
     ([Digest (hexToBytes addressKey), ImportKey (digestSHA256 wc (hexToBytes addressKey))],
      Inr (digestSHA256 wc (hexToBytes addressKey)))"
proof -
  have "length (digestSHA256 wc (hexToBytes addressKey)) = 32"
    using assms(1) by (simp add: conforming_def)
  then show ?thesis
    using assms(2) by (simp add: deriveAesKeyFromAddress_def assertAddress_def Let_def)
qed

definition wire :: "byte list \<Rightarrow> byte list \<Rightarrow> jsstring" where
  "wire iv cipherBytes =
     js ''sl1:'' @ b64encode (map unat iv) @ js '':'' @ b64encode (map unat cipherBytes)"

lemma encrypt_conforming:
  assumes "conforming wc" and "ADDRESS_RE addressKey"
  shows "encryptWithAddressKey wc m addressKey =
     ([Digest (hexToBytes addressKey), ImportKey (digestSHA256 wc (hexToBytes addressKey)),
       GetRandomValues 12,
       Encrypt (digestSHA256 wc (hexToBytes addressKey)) (getRandomValues wc 12)
         (TextEncoder_encode m)],
      Inr (wire (getRandomValues wc 12)
             (encryptAESGCM wc (digestSHA256 wc (hexToBytes addressKey)) (getRandomValues wc 12)
                (TextEncoder_encode m))))"
  by (simp add: encryptWithAddressKey_def derive_conforming [OF assms] Let_def
        bytesToBase64_encode wire_def)

lemma decrypt_wire:
  assumes "conforming wc" and "ADDRESS_RE addressKey" and "iv \<noteq> []" and "cipherBytes \<noteq> []"
  shows "decryptWithAddressKey wc (wire iv cipherBytes) addressKey =
     (case decryptAESGCM wc (digestSHA256 wc (hexToBytes addressKey)) iv cipherBytes of
        None \<Rightarrow>
          ([Digest (hexToBytes addressKey), ImportKey (digestSHA256 wc (hexToBytes addressKey)),
            Decrypt (digestSHA256 wc (hexToBytes addressKey)) iv cipherBytes],
           Inl (DOMException OperationError))
      | Some plainBuffer \<Rightarrow>
          ([Digest (hexToBytes addressKey), ImportKey (digestSHA256 wc (hexToBytes addressKey)),
            Decrypt (digestSHA256 wc (hexToBytes addressKey)) iv cipherBytes],
           Inr (TextDecoder_decode plainBuffer)))"
proof -
  have s: "split (wire iv cipherBytes) 0x3A =
      [js ''sl1'', b64encode (map unat iv), b64encode (map unat cipherBytes)]"
    unfolding wire_def
    by (intro split_wire b64encode_no_colon bytes_below)
  have n: "b64encode (map unat iv) \<noteq> []" "b64encode (map unat cipherBytes) \<noteq> []"
    using assms(3,4) by (simp_all add: b64encode_not_Nil)
  show ?thesis
    unfolding decryptWithAddressKey_def s
    using n
    by (simp add: Let_def element_def falsy_def derive_conforming [OF assms(1,2)]
          base64ToBytes_encode split: option.splits)
qed

subsection \<open>Text there and back\<close>

text \<open>
  The decoder reads the UTF-8 bytes of a scalar value back as that scalar value, so
  decoding an encoded string gives its scalar values without a leading U+FEFF, as code
  units; for a well-formed string that does not begin with U+FEFF this is the string.
\<close>

lemma m32: "q < 32 \<Longrightarrow> (192 + q) mod 32 = (q::nat)"
proof -
  assume q: "q < 32"
  have "192 + q = q + 6 * 32" by simp
  then show ?thesis using q by (simp only: mod_mult_self1 mod_less)
qed
lemma m16: "q < 16 \<Longrightarrow> (224 + q) mod 16 = (q::nat)"
proof -
  assume q: "q < 16"
  have "224 + q = q + 14 * 16" by simp
  then show ?thesis using q by (simp only: mod_mult_self1 mod_less)
qed
lemma m8: "q < 8 \<Longrightarrow> (240 + q) mod 8 = (q::nat)"
proof -
  assume q: "q < 8"
  have "240 + q = q + 30 * 8" by simp
  then show ?thesis using q by (simp only: mod_mult_self1 mod_less)
qed
lemma m64: "r < 64 \<Longrightarrow> (128 + r) mod 64 = (r::nat)"
proof -
  assume r: "r < 64"
  have "128 + r = r + 2 * 64" by simp
  then show ?thesis using r by (simp only: mod_mult_self1 mod_less)
qed

lemma recombine2: "(cp div 64) * 64 + cp mod 64 = (cp::nat)"
  by simp
lemma recombine3: "((cp div 4096) * 64 + (cp div 64) mod 64) * 64 + cp mod 64 = (cp::nat)"
proof -
  have "(cp div 64) div 64 = cp div 4096" by (simp add: div_mult2_eq)
  then have "(cp div 4096) * 64 + (cp div 64) mod 64 = cp div 64"
    using div_mult_mod_eq [of "cp div 64" 64] by simp
  then show ?thesis by simp
qed
lemma recombine4:
  "(((cp div 262144) * 64 + (cp div 4096) mod 64) * 64 + (cp div 64) mod 64) * 64 + cp mod 64 = (cp::nat)"
proof -
  have "(cp div 4096) div 64 = cp div 262144" by (simp add: div_mult2_eq)
  then have "(cp div 262144) * 64 + (cp div 4096) mod 64 = cp div 4096"
    using div_mult_mod_eq [of "cp div 4096" 64] by simp
  then show ?thesis by (simp only: recombine3)
qed

lemma range2: "128 \<le> cp \<Longrightarrow> cp < 2048 \<Longrightarrow> 2 \<le> cp div 64 \<and> cp div 64 < (32::nat)"
  by (simp add: div_less_iff_less_mult less_eq_div_iff_mult_less_eq)
lemma range3: "cp < 65536 \<Longrightarrow> cp div 4096 < (16::nat)"
  by (simp add: div_less_iff_less_mult)
lemma range3_low: "2048 \<le> cp \<Longrightarrow> cp div 4096 = 0 \<Longrightarrow> 32 \<le> (cp div 64) mod (64::nat)"
proof -
  assume a: "2048 \<le> cp" and b: "cp div 4096 = 0"
  have "cp < 4096" using b by (simp add: div_eq_0_iff)
  then have "cp div 64 < 64" by (simp add: div_less_iff_less_mult)
  moreover have "32 \<le> cp div 64" using a by (simp add: less_eq_div_iff_mult_less_eq)
  ultimately show ?thesis by simp
qed
lemma range3_high:
  "cp < 55296 \<Longrightarrow> cp div 4096 = 13 \<Longrightarrow> (cp div 64) mod 64 < (32::nat)"
proof -
  assume a: "cp < 55296" and b: "cp div 4096 = 13"
  have "(cp div 64) div 64 = 13" using b by (simp add: div_mult2_eq)
  then have "cp div 64 = 13 * 64 + (cp div 64) mod 64"
    using div_mult_mod_eq [of "cp div 64" 64] by simp
  moreover have "cp div 64 < 864" using a by (simp add: div_less_iff_less_mult)
  ultimately show ?thesis by linarith
qed
lemma range4: "cp < 1114112 \<Longrightarrow> cp div 262144 < (5::nat)"
  by (simp add: div_less_iff_less_mult)
lemma range4_low: "65536 \<le> cp \<Longrightarrow> cp div 262144 = 0 \<Longrightarrow> 16 \<le> (cp div 4096) mod (64::nat)"
proof -
  assume a: "65536 \<le> cp" and b: "cp div 262144 = 0"
  have "cp < 262144" using b by (simp add: div_eq_0_iff)
  then have "cp div 4096 < 64" by (simp add: div_less_iff_less_mult)
  moreover have "16 \<le> cp div 4096" using a by (simp add: less_eq_div_iff_mult_less_eq)
  ultimately show ?thesis by simp
qed
lemma range4_high:
  "cp < 1114112 \<Longrightarrow> cp div 262144 = 4 \<Longrightarrow> (cp div 4096) mod 64 < (16::nat)"
proof -
  assume a: "cp < 1114112" and b: "cp div 262144 = 4"
  have "(cp div 4096) div 64 = 4" using b by (simp add: div_mult2_eq)
  then have "cp div 4096 = 4 * 64 + (cp div 4096) mod 64"
    using div_mult_mod_eq [of "cp div 4096" 64] by simp
  moreover have "cp div 4096 < 272" using a by (simp add: div_less_iff_less_mult)
  ultimately show ?thesis by linarith
qed

abbreviation (input) decoder0 :: "nat list \<Rightarrow> nat list" where
  "decoder0 bs \<equiv> utf8Decoder 0 0 0 0x80 0xBF bs"

lemma dec1: "b \<le> 0x7F \<Longrightarrow> decoder0 (b # rest) = b # decoder0 rest"
  by simp

lemma dec2:
  assumes "2 \<le> q" "q < 32" "r < 64"
  shows "decoder0 ((192 + q) # (128 + r) # rest) = (q * 64 + r) # decoder0 rest"
  using assms by (simp add: m32 m64)

lemma dec3:
  assumes "q < 16" "s < 64" "r < 64" "q = 0 \<longrightarrow> 32 \<le> s" "q = 13 \<longrightarrow> s < 32"
  shows "decoder0 ((224 + q) # (128 + s) # (128 + r) # rest) = ((q * 64 + s) * 64 + r) # decoder0 rest"
  using assms by (simp add: m16 m64) arith

lemma dec4:
  assumes "q < 5" "s < 64" "t < 64" "r < 64" "q = 0 \<longrightarrow> 16 \<le> s" "q = 4 \<longrightarrow> s < 16"
  shows "decoder0 ((240 + q) # (128 + s) # (128 + t) # (128 + r) # rest) =
           (((q * 64 + s) * 64 + t) * 64 + r) # decoder0 rest"
  using assms by (simp add: m8 m64) arith

definition validScalar :: "nat \<Rightarrow> bool" where
  "validScalar cp = (cp < 0x110000 \<and> \<not> (0xD800 \<le> cp \<and> cp \<le> 0xDFFF))"

lemma decoder_utf8Bytes:
  assumes "validScalar cp"
  shows "decoder0 (utf8Bytes cp @ rest) = cp # decoder0 rest"
proof -
  consider "cp < 0x80" | "0x80 \<le> cp" "cp < 0x800" | "0x800 \<le> cp" "cp < 0x10000"
    | "0x10000 \<le> cp"
    by linarith
  then show ?thesis
  proof cases
    case 1
    then show ?thesis by (simp add: utf8Bytes_def)
  next
    case 2
    have b: "utf8Bytes cp @ rest = (192 + cp div 64) # (128 + cp mod 64) # rest"
      using 2 by (simp add: utf8Bytes_def)
    have "decoder0 ((192 + cp div 64) # (128 + cp mod 64) # rest) =
        ((cp div 64) * 64 + cp mod 64) # decoder0 rest"
      using range2 [OF 2] by (intro dec2) simp_all
    then show ?thesis unfolding b by (simp only: recombine2)
  next
    case 3
    have ns: "cp < 0xD800 \<or> 0xDFFF < cp"
      using assms by (auto simp: validScalar_def)
    have b: "utf8Bytes cp @ rest =
        (224 + cp div 4096) # (128 + (cp div 64) mod 64) # (128 + cp mod 64) # rest"
      using 3 by (simp add: utf8Bytes_def)
    have lo: "cp div 4096 = 0 \<longrightarrow> 32 \<le> (cp div 64) mod 64"
      using range3_low [of cp] 3(1) by simp
    have hi: "cp div 4096 = 13 \<longrightarrow> (cp div 64) mod 64 < 32"
    proof
      assume e: "cp div 4096 = 13"
      have "cp div 4096 < 14" using e by simp
      then have "cp < 57344" by (simp add: div_less_iff_less_mult)
      then have "cp < 55296" using ns by simp
      then show "(cp div 64) mod 64 < 32" using e by (rule range3_high)
    qed
    have "decoder0 ((224 + cp div 4096) # (128 + (cp div 64) mod 64) # (128 + cp mod 64) # rest) =
        (((cp div 4096) * 64 + (cp div 64) mod 64) * 64 + cp mod 64) # decoder0 rest"
      using range3 [OF 3(2)] lo hi by (intro dec3) simp_all
    then show ?thesis unfolding b by (simp only: recombine3)
  next
    case 4
    have lt: "cp < 1114112" using assms by (simp add: validScalar_def)
    have b: "utf8Bytes cp @ rest =
        (240 + cp div 262144) # (128 + (cp div 4096) mod 64) # (128 + (cp div 64) mod 64) #
        (128 + cp mod 64) # rest"
      using 4 by (simp add: utf8Bytes_def)
    have lo: "cp div 262144 = 0 \<longrightarrow> 16 \<le> (cp div 4096) mod 64"
      using range4_low [of cp] 4 by simp
    have hi: "cp div 262144 = 4 \<longrightarrow> (cp div 4096) mod 64 < 16"
      using range4_high [of cp] lt by simp
    have "decoder0 ((240 + cp div 262144) # (128 + (cp div 4096) mod 64) #
          (128 + (cp div 64) mod 64) # (128 + cp mod 64) # rest) =
        ((((cp div 262144) * 64 + (cp div 4096) mod 64) * 64 + (cp div 64) mod 64) * 64 +
          cp mod 64) # decoder0 rest"
      using range4 [OF lt] lo hi by (intro dec4) simp_all
    then show ?thesis unfolding b by (simp only: recombine4)
  qed
qed

lemma utf8Bytes_below: "validScalar cp \<Longrightarrow> list_all (\<lambda>b. b < 256) (utf8Bytes cp)"
proof -
  assume v: "validScalar cp"
  then have lt: "cp < 1114112" by (simp add: validScalar_def)
  have m: "128 + x mod 64 < (256::nat)" for x
  proof -
    have "x mod 64 < 64" by simp
    then show ?thesis by linarith
  qed
  consider "cp < 0x80" | "0x80 \<le> cp" "cp < 0x800" | "0x800 \<le> cp" "cp < 0x10000"
    | "0x10000 \<le> cp"
    by linarith
  then show ?thesis
  proof cases
    case 1
    then show ?thesis by (simp add: utf8Bytes_def)
  next
    case 2
    then show ?thesis using range2 [OF 2] m by (simp add: utf8Bytes_def)
  next
    case 3
    then show ?thesis using range3 [OF 3(2)] m by (simp add: utf8Bytes_def)
  next
    case 4
    then show ?thesis using range4 [OF lt] m by (simp add: utf8Bytes_def)
  qed
qed

lemma decoder_concat:
  "list_all validScalar svs \<Longrightarrow> decoder0 (concat (map utf8Bytes svs)) = svs"
  by (induction svs) (simp_all add: decoder_utf8Bytes)

lemma scalarValues_valid:
  "list_all (\<lambda>c. c < 65536) cs \<Longrightarrow> list_all validScalar (scalarValues cs)"
proof (induction cs rule: scalarValues.induct)
  case (1 c d cs)
  have pair: "validScalar (0x10000 + (c - 0xD800) * 0x400 + (d - 0xDC00))"
    if "isHighSurrogate c" "isLowSurrogate d"
  proof -
    have "c - 0xD800 \<le> 0x3FF" using that(1) unfolding isHighSurrogate_def by linarith
    then have "(c - 0xD800) * 0x400 \<le> 0x3FF * 0x400" by (rule mult_le_mono1)
    moreover have "d - 0xDC00 \<le> 0x3FF" using that(2) unfolding isLowSurrogate_def by linarith
    ultimately show ?thesis unfolding validScalar_def by simp
  qed
  have single: "validScalar c" if "\<not> isHighSurrogate c" "\<not> isLowSurrogate c"
    using that 1(4) by (auto simp: validScalar_def isHighSurrogate_def isLowSurrogate_def)
  have fffd: "validScalar 0xFFFD" by (simp add: validScalar_def)
  show ?case using 1 pair single fffd by auto
next
  case (2 c)
  then show ?case
    by (auto simp: validScalar_def isHighSurrogate_def isLowSurrogate_def)
next
  case 3
  show ?case by simp
qed

lemma units_below: "list_all (\<lambda>c. c < 65536) (map unat s)" for s :: jsstring
proof -
  have "unat c < 65536" for c :: code_unit
    using unsigned_less [of c, where ?'a = nat] by simp
  then show ?thesis by (simp add: list_all_iff)
qed

lemma unat_bytes: "list_all (\<lambda>b. b < 256) bs \<Longrightarrow> map unat (map word_of_nat bs :: byte list) = bs"
  by (induction bs) (simp_all add: unat_of_nat)

definition stripBOM :: "nat list \<Rightarrow> nat list" where
  "stripBOM out = (case out of [] \<Rightarrow> [] | cp # rest \<Rightarrow> if cp = 0xFEFF then rest else out)"

lemma decode_encode:
  "TextDecoder_decode (TextEncoder_encode s) =
     map word_of_nat (concat (map utf16Units (stripBOM (scalarValues (map unat s)))))"
proof -
  let ?svs = "scalarValues (map unat s)"
  have v: "list_all validScalar ?svs"
    using units_below by (rule scalarValues_valid)
  then have "list_all (\<lambda>b. b < 256) (concat (map utf8Bytes ?svs))"
    using utf8Bytes_below unfolding list_all_iff by auto
  then have "map unat (map word_of_nat (concat (map utf8Bytes ?svs)) :: byte list) =
      concat (map utf8Bytes ?svs)"
    by (rule unat_bytes)
  then have "utf8Decoder 0 0 0 0x80 0xBF (map unat (TextEncoder_encode s)) = ?svs"
    using decoder_concat [OF v] by (simp add: TextEncoder_encode_def)
  then show ?thesis
    by (simp add: TextDecoder_decode_def stripBOM_def Let_def)
qed

lemma utf16Units_pair:
  assumes "isHighSurrogate c" and "isLowSurrogate d"
  shows "utf16Units (0x10000 + (c - 0xD800) * 0x400 + (d - 0xDC00)) = [c, d]"
proof -
  have c: "0xD800 \<le> c" using assms(1) by (simp add: isHighSurrogate_def)
  have d: "0xDC00 \<le> d" "d - 0xDC00 < 0x400"
    using assms(2) unfolding isLowSurrogate_def by linarith+
  have "(0x10000 + (c - 0xD800) * 0x400 + (d - 0xDC00)) - 0x10000 = (c - 0xD800) * 0x400 + (d - 0xDC00)"
    by simp
  moreover have "((c - 0xD800) * 0x400 + (d - 0xDC00)) div 0x400 = c - 0xD800"
    using d(2) by simp
  moreover have "((c - 0xD800) * 0x400 + (d - 0xDC00)) mod 0x400 = d - 0xDC00"
    using d(2) by simp
  ultimately show ?thesis
    using c d(1) by (simp add: utf16Units_def)
qed

lemma utf16Units_single: "c < 65536 \<Longrightarrow> utf16Units c = [c]"
  by (simp add: utf16Units_def)

lemma utf16_scalarValues:
  "wellFormedUnits cs \<Longrightarrow> list_all (\<lambda>c. c < 65536) cs \<Longrightarrow>
   concat (map utf16Units (scalarValues cs)) = cs"
proof (induction cs rule: scalarValues.induct)
  case (1 c d cs)
  show ?case
  proof (cases "isHighSurrogate c")
    case True
    then have l: "isLowSurrogate d" and w: "wellFormedUnits cs" using 1(4) by simp_all
    have "concat (map utf16Units (scalarValues cs)) = cs"
      using 1(1) [OF conjI [OF True l] w] 1(5) by simp
    then show ?thesis using True l by (simp add: utf16Units_pair)
  next
    case False
    then have n: "\<not> isLowSurrogate c" and w: "wellFormedUnits (d # cs)" using 1(4) by simp_all
    have "concat (map utf16Units (scalarValues (d # cs))) = d # cs"
      using 1(3) False n w 1(5) by simp
    then show ?thesis using False n 1(5) by (simp add: utf16Units_single)
  qed
next
  case (2 c)
  then show ?case by (simp add: utf16Units_single)
next
  case 3
  show ?case by simp
qed

lemma stripBOM_scalarValues:
  assumes "wellFormedUnits cs" and "cs = [] \<or> hd cs \<noteq> 0xFEFF"
  shows "stripBOM (scalarValues cs) = scalarValues cs"
proof (cases cs rule: scalarValues.cases)
  case (1 c d rest)
  have "0xFEFF \<noteq> 0x10000 + (c - 0xD800) * 0x400 + (d - 0xDC00)" by simp
  then show ?thesis using assms 1 by (simp add: stripBOM_def)
next
  case (2 c)
  then show ?thesis using assms by (simp add: stripBOM_def)
next
  case 3
  then show ?thesis by (simp add: stripBOM_def)
qed

lemma hd_units: "s \<noteq> [] \<Longrightarrow> hd (map unat s) = 0xFEFF \<longleftrightarrow> hd s = 0xFEFF" for s :: jsstring
  by (cases s) (simp_all add: word_unat_eq_iff)

lemma text_round_trip:
  assumes "isWellFormed s" and "s = [] \<or> hd s \<noteq> 0xFEFF"
  shows "TextDecoder_decode (TextEncoder_encode s) = s"
proof -
  have w: "wellFormedUnits (map unat s)" using assms(1) by (simp add: isWellFormed_def)
  have b: "map unat s = [] \<or> hd (map unat s) \<noteq> 0xFEFF"
    using assms(2) hd_units [of s] by auto
  have "TextDecoder_decode (TextEncoder_encode s) =
      map word_of_nat (concat (map utf16Units (scalarValues (map unat s))))"
    by (simp only: decode_encode stripBOM_scalarValues [OF w b])
  also have "\<dots> = map word_of_nat (map unat s)"
    by (simp only: utf16_scalarValues [OF w units_below])
  also have "\<dots> = s"
    by (simp add: comp_def)
  finally show ?thesis .
qed

subsection \<open>Encryption there and back\<close>

text \<open>The small platform does what \<open>conforming\<close> asks, and decryption of an encrypted
  plaintext is the decoding of its encoding, on any such platform.\<close>

lemma conforming_toyCrypto: "conforming toyCrypto"
proof -
  have d: "length (toyDigest bs) = 32" for bs
    by (simp add: toyDigest_def)
  have t: "length (toyTag key iv p) = 16" for key iv p
    by (simp add: toyTag_def Let_def)
  have l: "length (toyEncrypt key iv p) = length p + 16" for key iv p
    by (simp add: toyEncrypt_def t)
  have r: "toyDecrypt key iv (toyEncrypt key iv p) = Some p" for key iv p
  proof -
    have "map (\<lambda>b. b - 1) (map (\<lambda>b. b + 1) p) = p"
      by (simp add: comp_def)
    then show ?thesis
      by (simp add: toyDecrypt_def toyEncrypt_def t Let_def)
  qed
  show ?thesis
    by (simp add: conforming_def toyCrypto_def d l r)
qed

lemma decrypt_encrypted:
  assumes "conforming wc" and "ADDRESS_RE addressKey"
  shows "snd (decryptWithAddressKey wc
            (wire (getRandomValues wc 12)
               (encryptAESGCM wc (digestSHA256 wc (hexToBytes addressKey)) (getRandomValues wc 12)
                  (TextEncoder_encode m)))
            addressKey) =
         Inr (TextDecoder_decode (TextEncoder_encode m))"
proof -
  let ?key = "digestSHA256 wc (hexToBytes addressKey)"
  let ?iv = "getRandomValues wc 12"
  let ?c = "encryptAESGCM wc ?key ?iv (TextEncoder_encode m)"
  have "length ?iv = 12" using assms(1) by (simp add: conforming_def)
  then have iv: "?iv \<noteq> []" by auto
  have "length ?c = length (TextEncoder_encode m) + 16"
    using assms(1) by (simp add: conforming_def)
  then have c: "?c \<noteq> []" by auto
  have d: "decryptAESGCM wc ?key ?iv ?c = Some (TextEncoder_encode m)"
    using assms(1) by (simp add: conforming_def)
  show ?thesis
    by (simp add: decrypt_wire [OF assms iv c] d)
qed

text \<open>
  Claim C1 (round trip), as the code has it. On a platform that does what
  \<open>conforming\<close> says, for every key that \<^verbatim>\<open>ADDRESS_RE\<close> accepts and every plaintext
  that is well formed and does not begin with U+FEFF, \<^verbatim>\<open>encryptWithAddressKey\<close>
  returns a wire string, and \<^verbatim>\<open>decryptWithAddressKey\<close> of that string under the same
  key returns the m.
\<close>

theorem encrypt_decrypt_round_trip:
  assumes "conforming wc" and "ADDRESS_RE addressKey"
      and "isWellFormed m" and "m = [] \<or> hd m \<noteq> 0xFEFF"
  shows "\<exists>calls payload.
           encryptWithAddressKey wc m addressKey = (calls, Inr payload) \<and>
           snd (decryptWithAddressKey wc payload addressKey) = Inr m"
proof -
  have "snd (decryptWithAddressKey wc
            (wire (getRandomValues wc 12)
               (encryptAESGCM wc (digestSHA256 wc (hexToBytes addressKey)) (getRandomValues wc 12)
                  (TextEncoder_encode m)))
            addressKey) = Inr m"
    by (simp only: decrypt_encrypted [OF assms(1,2)] text_round_trip [OF assms(3,4)])
  then show ?thesis
    using encrypt_conforming [OF assms(1,2), of m] by blast
qed

lemma getRandomValues_toy: "getRandomValues toyCrypto 12 = [0, 1, 2, 3, 4, 5, 6, 7, 8, 9, 10, 11]"
  by (simp add: toyCrypto_def upt_rec)

lemma digest_sampleKey: "digestSHA256 toyCrypto (hexToBytes sampleKey) = toyKey"
  by (simp add: toyCrypto_def toyDigest_def hexToBytes_sampleKey toyKey_def)

lemma encode_hi: "TextEncoder_encode (js ''hi'') = [104, 105]"
  by (simp add: TextEncoder_encode_def js_def utf8Bytes_def isHighSurrogate_def isLowSurrogate_def)

lemma toyEncrypt_hi:
  "toyEncrypt toyKey [0, 1, 2, 3, 4, 5, 6, 7, 8, 9, 10, 11] [104, 105] =
     [105, 106, 25, 25, 25, 25, 25, 25, 25, 25, 25, 25, 25, 25, 25, 25, 25, 25]"
  by (simp add: toyEncrypt_def toyTag_def toyKey_def Let_def)

lemma wire_hi:
  "wire [0, 1, 2, 3, 4, 5, 6, 7, 8, 9, 10, 11]
     [105, 106, 25, 25, 25, 25, 25, 25, 25, 25, 25, 25, 25, 25, 25, 25, 25, 25] =
   js ''sl1:AAECAwQFBgcICQoL:aWoZGRkZGRkZGRkZGRkZGRkZ''"
  by (simp add: wire_def b64char_def js_def)

lemma encrypt_hi:
  "snd (encryptWithAddressKey toyCrypto (js ''hi'') sampleKey) =
     Inr (js ''sl1:AAECAwQFBgcICQoL:aWoZGRkZGRkZGRkZGRkZGRkZ'')"
proof -
  have "encryptAESGCM toyCrypto = toyEncrypt" by (simp add: toyCrypto_def)
  then show ?thesis
    by (simp add: encrypt_conforming [OF conforming_toyCrypto ADDRESS_RE_sampleKey]
          getRandomValues_toy digest_sampleKey encode_hi toyEncrypt_hi wire_hi)
qed

lemma wellFormed_hi: "isWellFormed (js ''hi'')"
  by (simp add: isWellFormed_def js_def isHighSurrogate_def isLowSurrogate_def)

theorem encrypt_decrypt_round_trip_witness:
  "conforming toyCrypto \<and> ADDRESS_RE sampleKey \<and> isWellFormed (js ''hi'') \<and>
   snd (encryptWithAddressKey toyCrypto (js ''hi'') sampleKey) =
     Inr (js ''sl1:AAECAwQFBgcICQoL:aWoZGRkZGRkZGRkZGRkZGRkZ'') \<and>
   snd (decryptWithAddressKey toyCrypto (js ''sl1:AAECAwQFBgcICQoL:aWoZGRkZGRkZGRkZGRkZGRkZ'')
          sampleKey) = Inr (js ''hi'')"
proof -
  have b: "js ''hi'' = [] \<or> hd (js ''hi'') \<noteq> 0xFEFF"
    by (simp add: js_def)
  from encrypt_decrypt_round_trip [OF conforming_toyCrypto ADDRESS_RE_sampleKey wellFormed_hi b]
  obtain calls payload where
    e: "encryptWithAddressKey toyCrypto (js ''hi'') sampleKey = (calls, Inr payload)" and
    d: "snd (decryptWithAddressKey toyCrypto payload sampleKey) = Inr (js ''hi'')"
    by blast
  have "payload = js ''sl1:AAECAwQFBgcICQoL:aWoZGRkZGRkZGRkZGRkZGRkZ''"
    using e encrypt_hi by simp
  then show ?thesis
    using d encrypt_hi conforming_toyCrypto ADDRESS_RE_sampleKey wellFormed_hi by simp
qed

lemma encode_bom_hi: "TextEncoder_encode (0xFEFF # js ''hi'') = [239, 187, 191, 104, 105]"
  by (simp add: TextEncoder_encode_def js_def utf8Bytes_def isHighSurrogate_def isLowSurrogate_def)

lemma decode_bom_hi: "TextDecoder_decode [239, 187, 191, 104, 105] = js ''hi''"
  by (simp add: TextDecoder_decode_def utf16Units_def js_def)

lemma toyEncrypt_bom_hi:
  "toyEncrypt toyKey [0, 1, 2, 3, 4, 5, 6, 7, 8, 9, 10, 11] [239, 187, 191, 104, 105] =
     [240, 188, 192, 105, 106, 130, 130, 130, 130, 130, 130, 130, 130, 130, 130, 130, 130, 130,
      130, 130, 130]"
  by (simp add: toyEncrypt_def toyTag_def toyKey_def Let_def)

lemma wire_bom_hi:
  "wire [0, 1, 2, 3, 4, 5, 6, 7, 8, 9, 10, 11]
     [240, 188, 192, 105, 106, 130, 130, 130, 130, 130, 130, 130, 130, 130, 130, 130, 130, 130,
      130, 130, 130] =
   js ''sl1:AAECAwQFBgcICQoL:8LzAaWqCgoKCgoKCgoKCgoKCgoKC''"
  by (simp add: wire_def b64char_def js_def)

text \<open>The claim as written fails for a plaintext that begins with U+FEFF: the decoder
  takes it for a byte order mark and leaves it out.\<close>

theorem round_trip_counterexample:
  "ADDRESS_RE sampleKey \<and>
   snd (encryptWithAddressKey toyCrypto (0xFEFF # js ''hi'') sampleKey) =
     Inr (js ''sl1:AAECAwQFBgcICQoL:8LzAaWqCgoKCgoKCgoKCgoKCgoKC'') \<and>
   snd (decryptWithAddressKey toyCrypto (js ''sl1:AAECAwQFBgcICQoL:8LzAaWqCgoKCgoKCgoKCgoKCgoKC'')
          sampleKey) = Inr (js ''hi'') \<and>
   js ''hi'' \<noteq> 0xFEFF # js ''hi''"
proof -
  have e: "encryptAESGCM toyCrypto = toyEncrypt" by (simp add: toyCrypto_def)
  have 1: "snd (encryptWithAddressKey toyCrypto (0xFEFF # js ''hi'') sampleKey) =
     Inr (js ''sl1:AAECAwQFBgcICQoL:8LzAaWqCgoKCgoKCgoKCgoKCgoKC'')"
    by (simp add: encrypt_conforming [OF conforming_toyCrypto ADDRESS_RE_sampleKey] e
          getRandomValues_toy digest_sampleKey encode_bom_hi toyEncrypt_bom_hi wire_bom_hi)
  have "snd (decryptWithAddressKey toyCrypto
            (wire (getRandomValues toyCrypto 12)
               (encryptAESGCM toyCrypto (digestSHA256 toyCrypto (hexToBytes sampleKey))
                  (getRandomValues toyCrypto 12) (TextEncoder_encode (0xFEFF # js ''hi''))))
            sampleKey) =
         Inr (TextDecoder_decode (TextEncoder_encode (0xFEFF # js ''hi'')))"
    using conforming_toyCrypto ADDRESS_RE_sampleKey by (rule decrypt_encrypted)
  then have 2: "snd (decryptWithAddressKey toyCrypto
      (js ''sl1:AAECAwQFBgcICQoL:8LzAaWqCgoKCgoKCgoKCgoKCgoKC'') sampleKey) = Inr (js ''hi'')"
    by (simp add: e getRandomValues_toy digest_sampleKey encode_bom_hi toyEncrypt_bom_hi
          wire_bom_hi decode_bom_hi)
  have 3: "js ''hi'' \<noteq> 0xFEFF # js ''hi''"
    by (simp add: js_def)
  from ADDRESS_RE_sampleKey 1 2 3 show ?thesis by (intro conjI)
qed

subsection \<open>Changed wire strings\<close>

text \<open>What \<^verbatim>\<open>decryptWithAddressKey\<close> does with a wire string in which one code unit
  was replaced: in the version tag, at the first separator, at the second.\<close>

lemma hd_split: "hd (split xs sep) = takeWhile (\<lambda>c. c \<noteq> sep) xs"
  using split_not_Nil by (induction xs) (auto split: list.splits)

lemma takeWhile_shorter: "x \<in> set xs \<Longrightarrow> \<not> P x \<Longrightarrow> length (takeWhile P xs) < length xs"
  by (induction xs) auto

lemma unsupported_tag:
  assumes "hd (split payload 0x3A) \<noteq> js ''sl1''"
  shows "decryptWithAddressKey wc payload addressKey =
           ([], Inl (Error (js ''Unsupported ciphertext format'')))"
  using assms by (simp add: decryptWithAddressKey_def Let_def element_0_split)

lemma unsupported_two_segments:
  assumes "split payload 0x3A = [a, b]"
  shows "decryptWithAddressKey wc payload addressKey =
           ([], Inl (Error (js ''Unsupported ciphertext format'')))"
  using assms by (simp add: decryptWithAddressKey_def Let_def element_def falsy_def)

lemma length_js_sl1: "length (js ''sl1'') = 3"
  by (simp add: js_def)

lemma tag_changed:
  assumes "i < 3" and "b \<noteq> js ''sl1'' ! i"
  shows "takeWhile (\<lambda>c. c \<noteq> 0x3A) ((js ''sl1'')[i := b] @ 0x3A # rest) \<noteq> js ''sl1''"
proof -
  let ?t = "(js ''sl1'')[i := b]"
  have ne: "?t \<noteq> js ''sl1''"
  proof
    assume "?t = js ''sl1''"
    then have "?t ! i = js ''sl1'' ! i" by simp
    then show False using assms by (simp add: length_js_sl1)
  qed
  have tw: "takeWhile (\<lambda>c. c \<noteq> 0x3A) (?t @ 0x3A # rest) = takeWhile (\<lambda>c. c \<noteq> 0x3A) ?t"
    by (rule takeWhile_tail) simp
  show ?thesis
  proof (cases "0x3A \<in> set ?t")
    case False
    then have "takeWhile (\<lambda>c. c \<noteq> 0x3A) ?t = ?t"
      unfolding takeWhile_eq_all_conv by blast
    then show ?thesis using tw ne by simp
  next
    case True
    then have "length (takeWhile (\<lambda>c. c \<noteq> 0x3A) ?t) < length ?t"
      by (rule takeWhile_shorter) simp
    then have "length (takeWhile (\<lambda>c. c \<noteq> 0x3A) ?t) \<noteq> length (js ''sl1'')" by simp
    then show ?thesis using tw by metis
  qed
qed

lemma wire_segments:
  "wire iv c = js ''sl1'' @ 0x3A # b64encode (map unat iv) @ 0x3A # b64encode (map unat c)"
  by (simp add: wire_def js_sl1_colon js_colon)

lemma length_encoded_nonce:
  assumes "length iv = 12"
  shows "length (b64encode (map unat iv)) = 16"
proof -
  have "length (map unat iv) div 3 = 4" "length (map unat iv) mod 3 = 0"
    using assms by simp_all
  then show ?thesis
    by (simp add: b64encode_sextets length_sextets padding_def)
qed

lemma changed_tag:
  assumes "i < 3" and "b \<noteq> wire iv c ! i"
  shows "decryptWithAddressKey wc ((wire iv c)[i := b]) addressKey =
           ([], Inl (Error (js ''Unsupported ciphertext format'')))"
proof -
  let ?rest = "b64encode (map unat iv) @ 0x3A # b64encode (map unat c)"
  have i: "i < length (js ''sl1'')" using assms(1) by (simp add: length_js_sl1)
  have "wire iv c ! i = js ''sl1'' ! i"
    unfolding wire_segments using i by (simp add: nth_append)
  then have b: "b \<noteq> js ''sl1'' ! i" using assms(2) by simp
  have "(wire iv c)[i := b] = (js ''sl1'')[i := b] @ 0x3A # ?rest"
    unfolding wire_segments using i by (simp add: list_update_append1)
  then have "hd (split ((wire iv c)[i := b]) 0x3A) \<noteq> js ''sl1''"
    using tag_changed [OF assms(1) b, of ?rest] by (simp add: hd_split)
  then show ?thesis by (rule unsupported_tag)
qed

lemma changed_first_separator:
  assumes "b \<noteq> 0x3A"
  shows "decryptWithAddressKey wc ((wire iv c)[3 := b]) addressKey =
           ([], Inl (Error (js ''Unsupported ciphertext format'')))"
proof -
  let ?rest = "b64encode (map unat iv) @ 0x3A # b64encode (map unat c)"
  have "(wire iv c)[3 := b] = (js ''sl1'' @ 0x3A # ?rest)[length (js ''sl1'') := b]"
    by (simp only: wire_segments length_js_sl1)
  also have "\<dots> = js ''sl1'' @ b # ?rest"
    by (rule list_update_length)
  finally have u: "(wire iv c)[3 := b] = js ''sl1'' @ b # ?rest" .
  have "takeWhile (\<lambda>x. x \<noteq> 0x3A) (js ''sl1'' @ b # ?rest) =
      js ''sl1'' @ takeWhile (\<lambda>x. x \<noteq> 0x3A) (b # ?rest)"
    using sl1_no_colon by (intro takeWhile_append2) auto
  also have "\<dots> = js ''sl1'' @ b # takeWhile (\<lambda>x. x \<noteq> 0x3A) ?rest"
    using assms by simp
  finally have "length (hd (split ((wire iv c)[3 := b]) 0x3A)) > length (js ''sl1'')"
    unfolding u hd_split by simp
  then have "hd (split ((wire iv c)[3 := b]) 0x3A) \<noteq> js ''sl1''"
    by auto
  then show ?thesis by (rule unsupported_tag)
qed

lemma changed_second_separator:
  assumes "length iv = 12" and "b \<noteq> 0x3A"
  shows "decryptWithAddressKey wc ((wire iv c)[20 := b]) addressKey =
           ([], Inl (Error (js ''Unsupported ciphertext format'')))"
proof -
  let ?B = "b64encode (map unat iv)" and ?C = "b64encode (map unat c)"
  have l: "length (js ''sl1'' @ 0x3A # ?B) = 20"
    by (simp add: length_js_sl1 length_encoded_nonce [OF assms(1)])
  have "(wire iv c)[20 := b] = ((js ''sl1'' @ 0x3A # ?B) @ 0x3A # ?C)[length (js ''sl1'' @ 0x3A # ?B) := b]"
    unfolding l by (simp add: wire_segments)
  also have "\<dots> = (js ''sl1'' @ 0x3A # ?B) @ b # ?C"
    by (rule list_update_length)
  finally have u: "(wire iv c)[20 := b] = js ''sl1'' @ 0x3A # (?B @ b # ?C)"
    by simp
  have nB: "0x3A \<notin> set ?B" and nC: "0x3A \<notin> set ?C"
    by (intro b64encode_no_colon bytes_below)+
  have n: "0x3A \<notin> set (?B @ b # ?C)"
    using nB nC assms(2) by auto
  have "split (js ''sl1'' @ 0x3A # (?B @ b # ?C)) 0x3A = js ''sl1'' # split (?B @ b # ?C) 0x3A"
    using sl1_no_colon by (rule split_at_sep)
  also have "split (?B @ b # ?C) 0x3A = [?B @ b # ?C]"
    using n by (rule split_no_sep)
  finally show ?thesis unfolding u by (rule unsupported_two_segments)
qed

subsection \<open>What the decoder accepts\<close>

lemma length_b64decode: "4 * length (b64decode xs) \<le> 3 * length xs"
  by (induction xs rule: b64decode.induct) simp_all

lemma length_stripPadding: "length (stripPadding d) \<le> length d"
  by (simp add: stripPadding_def)

lemma stripPadding_same: "length (stripPadding d) = length d \<Longrightarrow> stripPadding d = d"
  by (auto simp: stripPadding_def split: if_splits)

lemma filter_same: "length (filter P xs) = length xs \<Longrightarrow> filter P xs = xs"
proof (induction xs)
  case (Cons x xs)
  show ?case
  proof (cases "P x")
    case True
    then show ?thesis using Cons by simp
  next
    case False
    then have "length (filter P xs) = Suc (length xs)" using Cons.prems by simp
    then show ?thesis using length_filter_le [of P xs] by simp
  qed
qed simp

lemma base64ToBytes_Inl:
  "base64ToBytes s = Inl e \<Longrightarrow> e = DOMException InvalidCharacterError"
  by (auto simp: base64ToBytes_def atob_def Let_def split: if_splits sum.splits)

lemma base64ToBytes_Inr:
  assumes "base64ToBytes s = Inr out"
  shows "alphabetic (stripPadding (filter (\<lambda>c. \<not> isAsciiWhitespace c) s)) \<and>
         out = map (\<lambda>n. ucast (word_of_nat n :: code_unit))
                 (b64decode (map (\<lambda>c. the (b64index c))
                    (stripPadding (filter (\<lambda>c. \<not> isAsciiWhitespace c) s))))"
  using assms
  by (auto simp: base64ToBytes_def atob_def Let_def alphabetic_def list_all_iff list_ex_iff
           split: if_splits sum.splits)

lemma base64ToBytes_length:
  assumes "base64ToBytes s = Inr out"
  shows "4 * length out \<le> 3 * length s"
proof -
  let ?d = "stripPadding (filter (\<lambda>c. \<not> isAsciiWhitespace c) s)"
  have "length out = length (b64decode (map (\<lambda>c. the (b64index c)) ?d))"
    using base64ToBytes_Inr [OF assms] by simp
  then have "4 * length out \<le> 3 * length ?d"
    using length_b64decode [of "map (\<lambda>c. the (b64index c)) ?d"] by simp
  moreover have "length ?d \<le> length s"
    by (rule order_trans [OF length_stripPadding length_filter_le])
  ultimately show ?thesis by simp
qed

lemma b64value_less: "b64value u = Some n \<Longrightarrow> n < 64"
  by (auto simp: b64value_def split: if_splits)

lemma b64index_less: "b64index c = Some n \<Longrightarrow> n < 64"
  unfolding b64index_value by (rule b64value_less)

lemma b64code_value: "b64value u = Some n \<Longrightarrow> b64code n = u"
  by (auto simp: b64value_def b64code_def split: if_splits)

lemma b64char_index:
  assumes "b64index c = Some n"
  shows "b64char n = c"
proof -
  have "b64code n = unat c"
    using assms unfolding b64index_value by (rule b64code_value)
  then show ?thesis by (simp add: b64char_code)
qed

lemma b64decode_bound:
  "list_all (\<lambda>s. s < 64) sx \<Longrightarrow> list_all (\<lambda>n. n < 256) (b64decode sx)"
proof (induction sx rule: b64decode.induct)
  case (1 a b c d rest)
  then have a: "a < 64" and b: "b < 64" and c: "c < 64" and d: "d < 64" by simp_all
  have "b div 16 < 4" using b by (simp add: div_less_iff_less_mult)
  then have 1: "a * 4 + b div 16 < 256" using a by simp
  have "c div 4 < 16" using c by (simp add: div_less_iff_less_mult)
  moreover have "b mod 16 \<le> 15" by simp
  then have "(b mod 16) * 16 \<le> 15 * 16" by (rule mult_le_mono1)
  ultimately have 2: "(b mod 16) * 16 + c div 4 < 256" by simp
  have "c mod 4 \<le> 3" by simp
  then have "(c mod 4) * 64 \<le> 3 * 64" by (rule mult_le_mono1)
  then have 3: "(c mod 4) * 64 + d < 256" using d by simp
  show ?case using 1 2 3 "1.IH" "1.prems" by simp
next
  case (2 a b c)
  then have a: "a < 64" and b: "b < 64" and c: "c < 64" by simp_all
  have "b div 16 < 4" using b by (simp add: div_less_iff_less_mult)
  then have 1: "a * 4 + b div 16 < 256" using a by simp
  have "c div 4 < 16" using c by (simp add: div_less_iff_less_mult)
  moreover have "b mod 16 \<le> 15" by simp
  then have "(b mod 16) * 16 \<le> 15 * 16" by (rule mult_le_mono1)
  ultimately have 2: "(b mod 16) * 16 + c div 4 < 256" by simp
  show ?case using 1 2 by simp
next
  case (3 a b)
  then have a: "a < 64" and b: "b < 64" by simp_all
  have "b div 16 < 4" using b by (simp add: div_less_iff_less_mult)
  then have 1: "a * 4 + b div 16 < 256" using a by simp
  show ?case using 1 by simp
qed simp_all

lemma quantum_inverse:
  assumes "b < 64" and "c < 64" and "d < 64"
  shows "(a * 4 + b div 16) div 4 = (a::nat)"
    and "((a * 4 + b div 16) mod 4) * 16 + ((b mod 16) * 16 + c div 4) div 16 = b"
    and "(((b mod 16) * 16 + c div 4) mod 16) * 4 + ((c mod 4) * 64 + d) div 64 = c"
    and "((c mod 4) * 64 + d) mod 64 = d"
proof -
  have b4: "b div 16 < 4" using assms(1) by (simp add: div_less_iff_less_mult)
  have c16: "c div 4 < 16" using assms(2) by (simp add: div_less_iff_less_mult)
  show "(a * 4 + b div 16) div 4 = a" using b4 by simp
  show "((a * 4 + b div 16) mod 4) * 16 + ((b mod 16) * 16 + c div 4) div 16 = b"
    using b4 c16 by simp
  show "(((b mod 16) * 16 + c div 4) mod 16) * 4 + ((c mod 4) * 64 + d) div 64 = c"
    using c16 assms(3) by simp
  show "((c mod 4) * 64 + d) mod 64 = d"
    using assms(3) by simp
qed

lemma sextets_b64decode:
  "list_all (\<lambda>s. s < 64) sx \<Longrightarrow> length sx mod 4 = 0 \<Longrightarrow> sextets (b64decode sx) = sx"
proof (induction sx rule: b64decode.induct)
  case (1 a b c d rest)
  then have b: "b < 64" and c: "c < 64" and d: "d < 64" by simp_all
  have "length (a # b # c # d # rest) = length rest + 4" by simp
  then have "length rest mod 4 = 0" using "1.prems"(2) by simp
  then have r: "sextets (b64decode rest) = rest" using 1 by simp
  have "sextets (b64decode (a # b # c # d # rest)) =
      [(a * 4 + b div 16) div 4,
       ((a * 4 + b div 16) mod 4) * 16 + ((b mod 16) * 16 + c div 4) div 16,
       (((b mod 16) * 16 + c div 4) mod 16) * 4 + ((c mod 4) * 64 + d) div 64,
       ((c mod 4) * 64 + d) mod 64] @ sextets (b64decode rest)"
    by (simp only: b64decode.simps sextets.simps append_Cons append_Nil)
  also have "\<dots> = a # b # c # d # rest"
    by (simp only: quantum_inverse [OF b c d] r append_Cons append_Nil)
  finally show ?case .
qed simp_all

lemma unat_decoded: "n < 256 \<Longrightarrow> unat (ucast (word_of_nat n :: code_unit) :: byte) = n"
proof -
  assume n: "n < 256"
  then have "unat (word_of_nat n :: code_unit) = n" by (simp add: unat_code_unit)
  moreover have "take_bit 8 n = n" using n by (simp add: take_bit_nat_eq_self)
  ultimately show ?thesis by (simp add: unsigned_ucast_eq)
qed

text \<open>
  A text that decodes to a whole number of three-byte groups and is no longer than their
  encoding is their encoding: the decoder then had no white space to remove, no padding
  to strip and no bits to drop.
\<close>

lemma base64ToBytes_canonical:
  assumes "base64ToBytes s = Inr bs" and "length bs mod 3 = 0"
      and "length s = length (b64encode (map unat bs))"
  shows "s = b64encode (map unat bs)"
proof -
  let ?f = "filter (\<lambda>c. \<not> isAsciiWhitespace c) s"
  let ?d = "stripPadding ?f"
  let ?sx = "map (\<lambda>c. the (b64index c)) ?d"
  have a: "alphabetic ?d" and out: "bs = map (\<lambda>n. ucast (word_of_nat n :: code_unit)) (b64decode ?sx)"
    using base64ToBytes_Inr [OF assms(1)] by simp_all
  have p: "padding (map unat bs) = []"
    using assms(2) by (simp add: padding_def)
  have e: "b64encode (map unat bs) = map b64char (sextets (map unat bs))"
    by (simp add: b64encode_sextets p)
  have ls: "length s = 4 * (length bs div 3)"
    using assms(2,3) by (simp add: e length_sextets)
  have "length bs = length (b64decode ?sx)" using out by simp
  then have "4 * length bs \<le> 3 * length ?d"
    using length_b64decode [of ?sx] by simp
  moreover have "3 * (length bs div 3) = length bs"
    using mult_div_mod_eq [of 3 "length bs"] assms(2) by simp
  ultimately have "length s \<le> length ?d" using ls by simp
  moreover have "length ?d \<le> length ?f" by (rule length_stripPadding)
  moreover have "length ?f \<le> length s" by (rule length_filter_le)
  ultimately have "length ?f = length s" and "length ?d = length ?f" by linarith+
  then have f: "?f = s" and d: "?d = ?f"
    by (simp_all only: filter_same stripPadding_same)
  have ds: "?d = s" using f d by simp
  have small: "list_all (\<lambda>x. x < 64) ?sx"
    using a b64index_less by (auto simp: alphabetic_def list_all_iff)
  have bytes: "list_all (\<lambda>n. n < 256) (b64decode ?sx)"
    using small by (rule b64decode_bound)
  have "map unat bs = map (\<lambda>n. unat (ucast (word_of_nat n :: code_unit) :: byte)) (b64decode ?sx)"
    by (subst out) (simp add: comp_def)
  also have "\<dots> = map (\<lambda>n. n) (b64decode ?sx)"
    using bytes by (intro map_cong refl) (simp add: list_all_iff unat_decoded)
  finally have u: "map unat bs = b64decode ?sx" by simp
  have "length ?sx mod 4 = 0" using ds ls by simp
  then have "sextets (b64decode ?sx) = ?sx"
    using small by (intro sextets_b64decode)
  then have "b64encode (map unat bs) = map b64char ?sx"
    using e u by simp
  also have "\<dots> = map (\<lambda>c. b64char (the (b64index c))) ?d"
    by (simp add: comp_def)
  also have "\<dots> = map (\<lambda>c. c) ?d"
    using a b64char_index by (intro map_cong refl) (auto simp: alphabetic_def list_all_iff)
  finally show ?thesis using ds by simp
qed

subsection \<open>A changed nonce or ciphertext\<close>

text \<open>
  What \<^verbatim>\<open>decryptWithAddressKey\<close> does with a string whose first segment is the tag:
  it fails on an empty second or third segment and on text that \<^verbatim>\<open>atob\<close> refuses;
  otherwise it hands the decoded nonce and ciphertext to AES-GCM and returns what
  AES-GCM answers.
\<close>

lemma decrypt_segments:
  assumes "conforming wc" and "ADDRESS_RE addressKey"
      and "split p 0x3A = js ''sl1'' # s1 # s2 # rest"
  shows "snd (decryptWithAddressKey wc p addressKey) =
           Inl (Error (js ''Unsupported ciphertext format'')) \<or>
         snd (decryptWithAddressKey wc p addressKey) = Inl (DOMException InvalidCharacterError) \<or>
         (\<exists>iv' c'.
            base64ToBytes s1 = Inr iv' \<and> base64ToBytes s2 = Inr c' \<and>
            decryptWithAddressKey wc p addressKey =
              ([Digest (hexToBytes addressKey), ImportKey (digestSHA256 wc (hexToBytes addressKey)),
                Decrypt (digestSHA256 wc (hexToBytes addressKey)) iv' c'],
               case decryptAESGCM wc (digestSHA256 wc (hexToBytes addressKey)) iv' c' of
                 None \<Rightarrow> Inl (DOMException OperationError)
               | Some plainBuffer \<Rightarrow> Inr (TextDecoder_decode plainBuffer)))"
proof (cases "s1 = [] \<or> s2 = []")
  case True
  then have "snd (decryptWithAddressKey wc p addressKey) =
      Inl (Error (js ''Unsupported ciphertext format''))"
    unfolding decryptWithAddressKey_def assms(3)
    by (auto simp: Let_def element_def falsy_def)
  then show ?thesis by simp
next
  case False
  then have ne: "s1 \<noteq> []" "s2 \<noteq> []" by simp_all
  show ?thesis
  proof (cases "base64ToBytes s1")
    case (Inl e)
    then have "e = DOMException InvalidCharacterError" by (rule base64ToBytes_Inl)
    then have "snd (decryptWithAddressKey wc p addressKey) = Inl (DOMException InvalidCharacterError)"
      unfolding decryptWithAddressKey_def assms(3) using ne Inl
      by (simp add: Let_def element_def falsy_def derive_conforming [OF assms(1,2)])
    then show ?thesis by simp
  next
    case iv: (Inr iv')
    show ?thesis
    proof (cases "base64ToBytes s2")
      case (Inl e)
      then have "e = DOMException InvalidCharacterError" by (rule base64ToBytes_Inl)
      then have "snd (decryptWithAddressKey wc p addressKey) = Inl (DOMException InvalidCharacterError)"
        unfolding decryptWithAddressKey_def assms(3) using ne iv Inl
        by (simp add: Let_def element_def falsy_def derive_conforming [OF assms(1,2)])
      then show ?thesis by simp
    next
      case c: (Inr c')
      have "decryptWithAddressKey wc p addressKey =
              ([Digest (hexToBytes addressKey), ImportKey (digestSHA256 wc (hexToBytes addressKey)),
                Decrypt (digestSHA256 wc (hexToBytes addressKey)) iv' c'],
               case decryptAESGCM wc (digestSHA256 wc (hexToBytes addressKey)) iv' c' of
                 None \<Rightarrow> Inl (DOMException OperationError)
               | Some plainBuffer \<Rightarrow> Inr (TextDecoder_decode plainBuffer))"
        unfolding decryptWithAddressKey_def assms(3) using ne iv c
        by (simp add: Let_def element_def falsy_def derive_conforming [OF assms(1,2)]
              split: option.splits)
      then show ?thesis using iv c by blast
    qed
  qed
qed

text \<open>The segments of a wire string in which one code unit of the nonce's text, or of
  the ciphertext's, was replaced.\<close>

lemma no_colon_update: "0x3A \<notin> set xs \<Longrightarrow> b \<noteq> 0x3A \<Longrightarrow> 0x3A \<notin> set (xs[j := b])"
  for xs :: jsstring
  using set_update_subset_insert [of xs j b] by auto

lemma no_colon_take: "0x3A \<notin> set xs \<Longrightarrow> 0x3A \<notin> set (take j xs)" for xs :: jsstring
  by (auto dest: in_set_takeD)

lemma no_colon_drop: "0x3A \<notin> set xs \<Longrightarrow> 0x3A \<notin> set (drop j xs)" for xs :: jsstring
  by (auto dest: in_set_dropD)

lemma split_two: "0x3A \<notin> set xs \<Longrightarrow> 0x3A \<notin> set ys \<Longrightarrow> split (xs @ 0x3A # ys) 0x3A = [xs, ys]"
  by (simp add: split_at_sep split_no_sep)

lemma split_three:
  "0x3A \<notin> set xs \<Longrightarrow> 0x3A \<notin> set ys \<Longrightarrow> 0x3A \<notin> set zs \<Longrightarrow>
   split (xs @ 0x3A # ys @ 0x3A # zs) 0x3A = [xs, ys, zs]"
  by (simp add: split_at_sep split_no_sep)

lemma split_changed:
  assumes "0x3A \<notin> set xs" and "0x3A \<notin> set ys" and "j < length xs"
  shows "split (xs[j := b] @ 0x3A # ys) 0x3A =
           (if b = 0x3A then [take j xs, drop (Suc j) xs, ys] else [xs[j := b], ys])"
proof (cases "b = 0x3A")
  case True
  have "xs[j := b] = take j xs @ 0x3A # drop (Suc j) xs"
    using assms(3) True by (simp add: upd_conv_take_nth_drop)
  then have "split (xs[j := b] @ 0x3A # ys) 0x3A =
      split (take j xs @ 0x3A # drop (Suc j) xs @ 0x3A # ys) 0x3A"
    by simp
  also have "\<dots> = [take j xs, drop (Suc j) xs, ys]"
    using assms(1,2) by (intro split_three no_colon_take no_colon_drop)
  finally show ?thesis using True by simp
next
  case False
  then have "0x3A \<notin> set (xs[j := b])" using assms(1) by (intro no_colon_update)
  then show ?thesis using False assms(2) by (simp add: split_two)
qed

lemma split_changed_last:
  assumes "0x3A \<notin> set ys" and "j < length ys"
  shows "split (ys[j := b]) 0x3A =
           (if b = 0x3A then [take j ys, drop (Suc j) ys] else [ys[j := b]])"
proof (cases "b = 0x3A")
  case True
  have "ys[j := b] = take j ys @ 0x3A # drop (Suc j) ys"
    using assms(2) True by (simp add: upd_conv_take_nth_drop)
  then show ?thesis
    using True assms(1) by (simp add: split_two no_colon_take no_colon_drop)
next
  case False
  then have "0x3A \<notin> set (ys[j := b])" using assms(1) by (intro no_colon_update)
  then show ?thesis using False by (simp add: split_no_sep)
qed

lemma wire_changed_nonce:
  assumes "length iv = 12" and "4 \<le> i" and "i < 20"
  shows "split ((wire iv c)[i := b]) 0x3A =
           js ''sl1'' #
           (if b = 0x3A
            then [take (i - 4) (b64encode (map unat iv)), drop (Suc (i - 4)) (b64encode (map unat iv)),
                  b64encode (map unat c)]
            else [(b64encode (map unat iv))[i - 4 := b], b64encode (map unat c)])"
proof -
  let ?B = "b64encode (map unat iv)" and ?C = "b64encode (map unat c)"
  have lB: "length ?B = 16" using assms(1) by (rule length_encoded_nonce)
  have nB: "0x3A \<notin> set ?B" and nC: "0x3A \<notin> set ?C"
    by (intro b64encode_no_colon bytes_below)+
  have j: "i - 4 < length ?B" using assms(2,3) lB by simp
  have l: "length (js ''sl1'' @ [0x3A]) = 4"
    by (simp add: length_js_sl1)
  have "(wire iv c)[i := b] = ((js ''sl1'' @ [0x3A]) @ (?B @ 0x3A # ?C))[i := b]"
    unfolding wire_segments by simp
  also have "\<dots> = (js ''sl1'' @ [0x3A]) @ (?B @ 0x3A # ?C)[i - 4 := b]"
    using assms(2) by (simp only: list_update_append l) simp
  also have "(?B @ 0x3A # ?C)[i - 4 := b] = ?B[i - 4 := b] @ 0x3A # ?C"
    using j by (simp add: list_update_append)
  finally have u: "(wire iv c)[i := b] = js ''sl1'' @ 0x3A # (?B[i - 4 := b] @ 0x3A # ?C)"
    by simp
  have "split (js ''sl1'' @ 0x3A # (?B[i - 4 := b] @ 0x3A # ?C)) 0x3A =
      js ''sl1'' # split (?B[i - 4 := b] @ 0x3A # ?C) 0x3A"
    using sl1_no_colon by (rule split_at_sep)
  then show ?thesis
    unfolding u by (simp only: split_changed [OF nB nC j])
qed

lemma wire_changed_cipher:
  assumes "length iv = 12" and "20 < i" and "i < length (wire iv c)"
  shows "split ((wire iv c)[i := b]) 0x3A =
           js ''sl1'' # b64encode (map unat iv) #
           (if b = 0x3A
            then [take (i - 21) (b64encode (map unat c)), drop (Suc (i - 21)) (b64encode (map unat c))]
            else [(b64encode (map unat c))[i - 21 := b]])"
proof -
  let ?B = "b64encode (map unat iv)" and ?C = "b64encode (map unat c)"
  have lB: "length ?B = 16" using assms(1) by (rule length_encoded_nonce)
  have nB: "0x3A \<notin> set ?B" and nC: "0x3A \<notin> set ?C"
    by (intro b64encode_no_colon bytes_below)+
  have "length (wire iv c) = 21 + length ?C"
    unfolding wire_segments by (simp add: length_js_sl1 lB)
  then have j: "i - 21 < length ?C" using assms(2,3) by simp
  have l: "length (js ''sl1'' @ 0x3A # ?B @ [0x3A]) = 21"
    by (simp add: length_js_sl1 lB)
  have "(wire iv c)[i := b] = ((js ''sl1'' @ 0x3A # ?B @ [0x3A]) @ ?C)[i := b]"
    unfolding wire_segments by simp
  also have "\<dots> = (js ''sl1'' @ 0x3A # ?B @ [0x3A]) @ ?C[i - 21 := b]"
    using assms(2) by (simp only: list_update_append l) simp
  finally have u: "(wire iv c)[i := b] = js ''sl1'' @ 0x3A # (?B @ 0x3A # ?C[i - 21 := b])"
    by simp
  have "split (js ''sl1'' @ 0x3A # (?B @ 0x3A # ?C[i - 21 := b])) 0x3A =
      js ''sl1'' # split (?B @ 0x3A # ?C[i - 21 := b]) 0x3A"
    using sl1_no_colon by (rule split_at_sep)
  also have "split (?B @ 0x3A # ?C[i - 21 := b]) 0x3A = ?B # split (?C[i - 21 := b]) 0x3A"
    using nB by (rule split_at_sep)
  finally show ?thesis
    unfolding u by (simp only: split_changed_last [OF nC j])
qed

text \<open>A changed text of the nonce never decodes to the nonce.\<close>

lemma nonce_changed:
  assumes "length iv = 12" and "j < 16" and "b \<noteq> b64encode (map unat iv) ! j"
  shows "base64ToBytes ((b64encode (map unat iv))[j := b]) \<noteq> Inr iv"
proof
  let ?B = "b64encode (map unat iv)"
  assume d: "base64ToBytes (?B[j := b]) = Inr iv"
  have "length iv mod 3 = 0" using assms(1) by simp
  moreover have "length (?B[j := b]) = length ?B" by simp
  ultimately have "?B[j := b] = ?B"
    using d by (intro base64ToBytes_canonical)
  then have "?B[j := b] ! j = ?B ! j" by simp
  moreover have "j < length ?B"
    using assms(2) length_encoded_nonce [OF assms(1)] by simp
  ultimately show False using assms(3) by simp
qed

lemma nonce_cut:
  assumes "length iv = 12" and "base64ToBytes (take j (b64encode (map unat iv'))) = Inr iv"
      and "length (b64encode (map unat iv')) = 16" and "j < 16"
  shows False
proof -
  have "4 * length iv \<le> 3 * length (take j (b64encode (map unat iv')))"
    using assms(2) by (rule base64ToBytes_length)
  then show False using assms(1,3,4) by simp
qed

lemma changed_segments:
  assumes "conforming wc" and "ADDRESS_RE addressKey"
      and "isWellFormed m" and "m = [] \<or> hd m \<noteq> 0xFEFF"
      and "split p 0x3A = js ''sl1'' # s1 # s2 # rest"
      and "\<And>iv'. base64ToBytes s1 = Inr iv' \<Longrightarrow> P iv'"
  shows "snd (decryptWithAddressKey wc p addressKey) =
           Inl (Error (js ''Unsupported ciphertext format'')) \<or>
         snd (decryptWithAddressKey wc p addressKey) = Inl (DOMException InvalidCharacterError) \<or>
         (\<exists>iv' c'.
            base64ToBytes (split p 0x3A ! 1) = Inr iv' \<and>
            base64ToBytes (split p 0x3A ! 2) = Inr c' \<and>
            P iv' \<and>
            decryptWithAddressKey wc p addressKey =
              ([Digest (hexToBytes addressKey), ImportKey (digestSHA256 wc (hexToBytes addressKey)),
                Decrypt (digestSHA256 wc (hexToBytes addressKey)) iv' c'],
               case decryptAESGCM wc (digestSHA256 wc (hexToBytes addressKey)) iv' c' of
                 None \<Rightarrow> Inl (DOMException OperationError)
               | Some plainBuffer \<Rightarrow> Inr (TextDecoder_decode plainBuffer)) \<and>
            (iv' = getRandomValues wc 12 \<and>
             c' = encryptAESGCM wc (digestSHA256 wc (hexToBytes addressKey)) (getRandomValues wc 12)
                    (TextEncoder_encode m) \<longrightarrow>
               snd (decryptWithAddressKey wc p addressKey) = Inr m))"
proof -
  let ?key = "digestSHA256 wc (hexToBytes addressKey)"
  let ?iv = "getRandomValues wc 12"
  let ?c = "encryptAESGCM wc ?key ?iv (TextEncoder_encode m)"
  have n1: "split p 0x3A ! 1 = s1" and n2: "split p 0x3A ! 2 = s2"
    unfolding assms(5) by simp_all
  from decrypt_segments [OF assms(1,2,5)]
  consider "snd (decryptWithAddressKey wc p addressKey) =
           Inl (Error (js ''Unsupported ciphertext format''))"
    | "snd (decryptWithAddressKey wc p addressKey) = Inl (DOMException InvalidCharacterError)"
    | iv' c' where "base64ToBytes s1 = Inr iv'" "base64ToBytes s2 = Inr c'"
        "decryptWithAddressKey wc p addressKey =
              ([Digest (hexToBytes addressKey), ImportKey ?key, Decrypt ?key iv' c'],
               case decryptAESGCM wc ?key iv' c' of
                 None \<Rightarrow> Inl (DOMException OperationError)
               | Some plainBuffer \<Rightarrow> Inr (TextDecoder_decode plainBuffer))"
    by blast
  then show ?thesis
  proof cases
    case 1
    then show ?thesis by simp
  next
    case 2
    then show ?thesis by simp
  next
    case 3
    have same: "snd (decryptWithAddressKey wc p addressKey) = Inr m" if "iv' = ?iv \<and> c' = ?c"
    proof -
      have "decryptAESGCM wc ?key iv' c' = Some (TextEncoder_encode m)"
        using that assms(1) by (simp add: conforming_def)
      then show ?thesis
        using 3(3) text_round_trip [OF assms(3,4)] by simp
    qed
    have "base64ToBytes (split p 0x3A ! 1) = Inr iv' \<and>
          base64ToBytes (split p 0x3A ! 2) = Inr c' \<and>
          P iv' \<and>
          decryptWithAddressKey wc p addressKey =
              ([Digest (hexToBytes addressKey), ImportKey ?key, Decrypt ?key iv' c'],
               case decryptAESGCM wc ?key iv' c' of
                 None \<Rightarrow> Inl (DOMException OperationError)
               | Some plainBuffer \<Rightarrow> Inr (TextDecoder_decode plainBuffer)) \<and>
          (iv' = ?iv \<and> c' = ?c \<longrightarrow> snd (decryptWithAddressKey wc p addressKey) = Inr m)"
      using 3 assms(6) [OF 3(1)] same unfolding n1 n2 by (intro conjI impI)
    then show ?thesis by blast
  qed
qed

text \<open>
  Claim C4 (tamper detection), as the code has it. Take a wire string that
  \<^verbatim>\<open>encryptWithAddressKey\<close> produced (platform, key and plaintext as for the round
  trip) and replace the code unit at one position by another.

  \<^item> In the version tag or at one of the two separators (positions 0 to 3 and 20):
    \<^verbatim>\<open>decryptWithAddressKey\<close> throws the unsupported-format error and makes no call
    into the platform's cryptography.

  \<^item> At any other position it throws the unsupported-format error (a segment became
    empty), or the \<^verbatim>\<open>InvalidCharacterError\<close> of \<^verbatim>\<open>atob\<close>, or it decodes the second
    and the third segment of the changed string, hands exactly these bytes to AES-GCM
    and returns what AES-GCM answers: the \<^verbatim>\<open>OperationError\<close> when AES-GCM rejects
    them, the decoded text of its output when it accepts them.

  \<^item> After a change in the nonce's text (positions 4 to 19) the nonce handed to AES-GCM
    is never the one produced. After a change in the ciphertext's text (from position
    21) the nonce is the one produced; when the ciphertext decodes to the bytes produced
    all the same, the original plaintext comes back.

  So a plaintext other than the original is returned only when AES-GCM accepts, under
  the key, the decoded nonce and ciphertext, which then differ from the ones produced.
\<close>

theorem tampering_detected:
  assumes "conforming wc" and "ADDRESS_RE addressKey"
      and "isWellFormed m" and "m = [] \<or> hd m \<noteq> 0xFEFF"
      and "encryptWithAddressKey wc m addressKey = (calls, Inr payload)"
      and "i < length payload" and "b \<noteq> payload ! i"
  shows "(i < 4 \<or> i = 20 \<longrightarrow>
            decryptWithAddressKey wc (payload[i := b]) addressKey =
              ([], Inl (Error (js ''Unsupported ciphertext format'')))) \<and>
         (4 \<le> i \<and> i \<noteq> 20 \<longrightarrow>
            snd (decryptWithAddressKey wc (payload[i := b]) addressKey) =
              Inl (Error (js ''Unsupported ciphertext format'')) \<or>
            snd (decryptWithAddressKey wc (payload[i := b]) addressKey) =
              Inl (DOMException InvalidCharacterError) \<or>
            (\<exists>iv' c'.
               base64ToBytes (split (payload[i := b]) 0x3A ! 1) = Inr iv' \<and>
               base64ToBytes (split (payload[i := b]) 0x3A ! 2) = Inr c' \<and>
               ((i < 20 \<longrightarrow> iv' \<noteq> getRandomValues wc 12) \<and>
                (20 < i \<longrightarrow> iv' = getRandomValues wc 12)) \<and>
               decryptWithAddressKey wc (payload[i := b]) addressKey =
                 ([Digest (hexToBytes addressKey),
                   ImportKey (digestSHA256 wc (hexToBytes addressKey)),
                   Decrypt (digestSHA256 wc (hexToBytes addressKey)) iv' c'],
                  case decryptAESGCM wc (digestSHA256 wc (hexToBytes addressKey)) iv' c' of
                    None \<Rightarrow> Inl (DOMException OperationError)
                  | Some plainBuffer \<Rightarrow> Inr (TextDecoder_decode plainBuffer)) \<and>
               (iv' = getRandomValues wc 12 \<and>
                c' = encryptAESGCM wc (digestSHA256 wc (hexToBytes addressKey))
                       (getRandomValues wc 12) (TextEncoder_encode m) \<longrightarrow>
                  snd (decryptWithAddressKey wc (payload[i := b]) addressKey) = Inr m)))"
proof -
  let ?key = "digestSHA256 wc (hexToBytes addressKey)"
  let ?iv = "getRandomValues wc 12"
  let ?c = "encryptAESGCM wc ?key ?iv (TextEncoder_encode m)"
  let ?B = "b64encode (map unat ?iv)"
  let ?C = "b64encode (map unat ?c)"
  have p: "payload = wire ?iv ?c"
    using assms(5) encrypt_conforming [OF assms(1,2), of m] by simp
  have liv: "length ?iv = 12"
    using assms(1) by (simp add: conforming_def)
  have lB: "length ?B = 16" using liv by (rule length_encoded_nonce)
  have sep3: "wire ?iv ?c ! 3 = 0x3A"
    unfolding wire_segments by (simp add: nth_append length_js_sl1)
  have sep20: "wire ?iv ?c ! 20 = 0x3A"
  proof -
    have "length (js ''sl1'' @ 0x3A # ?B) = 20"
      by (simp add: length_js_sl1 lB)
    then have "((js ''sl1'' @ 0x3A # ?B) @ 0x3A # ?C) ! 20 = 0x3A"
      by (metis nth_append_length)
    then show ?thesis by (simp add: wire_segments)
  qed
  have framing: "decryptWithAddressKey wc (payload[i := b]) addressKey =
      ([], Inl (Error (js ''Unsupported ciphertext format'')))" if h: "i < 4 \<or> i = 20"
  proof -
    consider "i < 3" | "i = 3" | "i = 20" using h by linarith
    then show ?thesis
    proof cases
      case 1
      then show ?thesis using assms(7) unfolding p by (rule changed_tag)
    next
      case 2
      then have "b \<noteq> 0x3A" using assms(7) sep3 unfolding p by simp
      then show ?thesis unfolding p 2 by (rule changed_first_separator)
    next
      case 3
      then have "b \<noteq> 0x3A" using assms(7) sep20 unfolding p by simp
      then show ?thesis unfolding p 3 using liv by (intro changed_second_separator)
    qed
  qed
  let ?P = "\<lambda>iv'. (i < 20 \<longrightarrow> iv' \<noteq> ?iv) \<and> (20 < i \<longrightarrow> iv' = ?iv)"
  have segments: "\<exists>s1 s2 rest.
      split (payload[i := b]) 0x3A = js ''sl1'' # s1 # s2 # rest \<and>
      (\<forall>iv'. base64ToBytes s1 = Inr iv' \<longrightarrow> ?P iv')" if h: "4 \<le> i" "i \<noteq> 20"
  proof (cases "i < 20")
    case True
    note sp = wire_changed_nonce [OF liv h(1) True, of ?c b]
    have j: "i - 4 < 16" using h(1) True by simp
    have "wire ?iv ?c ! i = (?B @ 0x3A # ?C) ! (i - 4)"
      unfolding wire_segments using h(1) by (simp add: nth_append length_js_sl1 nth_Cons')
    also have "\<dots> = ?B ! (i - 4)"
      using j lB by (simp add: nth_append)
    finally have b: "b \<noteq> ?B ! (i - 4)" using assms(7) unfolding p by simp
    show ?thesis
    proof (cases "b = 0x3A")
      case True
      have "iv' \<noteq> ?iv" if "base64ToBytes (take (i - 4) ?B) = Inr iv'" for iv'
        using nonce_cut [OF liv _ lB j] that by blast
      then show ?thesis
        unfolding p using sp True \<open>i < 20\<close> by simp
    next
      case False
      have "iv' \<noteq> ?iv" if "base64ToBytes (?B[i - 4 := b]) = Inr iv'" for iv'
        using nonce_changed [OF liv j b] that by blast
      then show ?thesis
        unfolding p using sp False \<open>i < 20\<close> by simp
    qed
  next
    case False
    then have gt: "20 < i" using h(2) by simp
    have len: "i < length (wire ?iv ?c)" using assms(6) unfolding p .
    note sp = wire_changed_cipher [OF liv gt len, of b]
    have "iv' = ?iv" if "base64ToBytes ?B = Inr iv'" for iv'
      using that by (simp add: base64ToBytes_encode)
    then show ?thesis
      unfolding p using sp gt by (cases "b = 0x3A") simp_all
  qed
  have changed: "snd (decryptWithAddressKey wc (payload[i := b]) addressKey) =
              Inl (Error (js ''Unsupported ciphertext format'')) \<or>
            snd (decryptWithAddressKey wc (payload[i := b]) addressKey) =
              Inl (DOMException InvalidCharacterError) \<or>
            (\<exists>iv' c'.
               base64ToBytes (split (payload[i := b]) 0x3A ! 1) = Inr iv' \<and>
               base64ToBytes (split (payload[i := b]) 0x3A ! 2) = Inr c' \<and>
               ((i < 20 \<longrightarrow> iv' \<noteq> ?iv) \<and> (20 < i \<longrightarrow> iv' = ?iv)) \<and>
               decryptWithAddressKey wc (payload[i := b]) addressKey =
                 ([Digest (hexToBytes addressKey), ImportKey ?key, Decrypt ?key iv' c'],
                  case decryptAESGCM wc ?key iv' c' of
                    None \<Rightarrow> Inl (DOMException OperationError)
                  | Some plainBuffer \<Rightarrow> Inr (TextDecoder_decode plainBuffer)) \<and>
               (iv' = ?iv \<and> c' = ?c \<longrightarrow>
                  snd (decryptWithAddressKey wc (payload[i := b]) addressKey) = Inr m))"
    if h: "4 \<le> i \<and> i \<noteq> 20"
  proof -
    from segments h obtain s1 s2 rest where
      sp: "split (payload[i := b]) 0x3A = js ''sl1'' # s1 # s2 # rest" and
      n: "\<And>iv'. base64ToBytes s1 = Inr iv' \<Longrightarrow> ?P iv'"
      by blast
    show ?thesis
      using assms(1,2,3,4) sp n by (rule changed_segments [where P = ?P])
  qed
  show ?thesis
    using framing changed by (intro conjI impI)
qed

lemma encrypt_hi_calls:
  "encryptWithAddressKey toyCrypto (js ''hi'') sampleKey =
     (fst (encryptWithAddressKey toyCrypto (js ''hi'') sampleKey),
      Inr (js ''sl1:AAECAwQFBgcICQoL:aWoZGRkZGRkZGRkZGRkZGRkZ''))"
  using encrypt_hi by (metis prod.collapse)

text \<open>On the small platform: \<^verbatim>\<open>t\<close> in the place of the first code unit of the tag, and
  \<^verbatim>\<open>b\<close> in the place of the first code unit of the ciphertext's text, which the
  platform's decryption then rejects.\<close>

lemma changed_hi:
  "(js ''sl1:AAECAwQFBgcICQoL:aWoZGRkZGRkZGRkZGRkZGRkZ'')[21 := 0x62] =
     js ''sl1:AAECAwQFBgcICQoL:bWoZGRkZGRkZGRkZGRkZGRkZ''"
  by (simp add: js_def eval_nat_numeral)

lemma split_changed_hi:
  "split (js ''sl1:AAECAwQFBgcICQoL:bWoZGRkZGRkZGRkZGRkZGRkZ'') 0x3A =
     [js ''sl1'', js ''AAECAwQFBgcICQoL'', js ''bWoZGRkZGRkZGRkZGRkZGRkZ'']"
  by (simp add: js_def)

lemma base64ToBytes_changed_hi:
  "base64ToBytes (js ''bWoZGRkZGRkZGRkZGRkZGRkZ'') =
     Inr [109, 106, 25, 25, 25, 25, 25, 25, 25, 25, 25, 25, 25, 25, 25, 25, 25, 25]"
  by (simp add: base64ToBytes_def atob_def js_def stripPadding_def isAsciiWhitespace_def b64index_def)

lemma toyDecrypt_changed_hi:
  "toyDecrypt toyKey [0, 1, 2, 3, 4, 5, 6, 7, 8, 9, 10, 11]
     [109, 106, 25, 25, 25, 25, 25, 25, 25, 25, 25, 25, 25, 25, 25, 25, 25, 25] = None"
  by (simp add: toyDecrypt_def toyTag_def toyKey_def Let_def)

lemma decrypt_changed_hi:
  "decryptWithAddressKey toyCrypto (js ''sl1:AAECAwQFBgcICQoL:bWoZGRkZGRkZGRkZGRkZGRkZ'') sampleKey =
     ([Digest (hexToBytes sampleKey), ImportKey toyKey,
       Decrypt toyKey [0, 1, 2, 3, 4, 5, 6, 7, 8, 9, 10, 11]
         [109, 106, 25, 25, 25, 25, 25, 25, 25, 25, 25, 25, 25, 25, 25, 25, 25, 25]],
      Inl (DOMException OperationError))"
proof -
  have "decryptAESGCM toyCrypto = toyDecrypt" by (simp add: toyCrypto_def)
  then show ?thesis
    by (simp add: decryptWithAddressKey_def split_changed_hi element_def falsy_def Let_def
        derive_sampleKey base64ToBytes_iv base64ToBytes_changed_hi toyDecrypt_changed_hi js_ne)
qed

theorem tampering_detected_witness:
  "conforming toyCrypto \<and> ADDRESS_RE sampleKey \<and> isWellFormed (js ''hi'') \<and>
   snd (encryptWithAddressKey toyCrypto (js ''hi'') sampleKey) =
     Inr (js ''sl1:AAECAwQFBgcICQoL:aWoZGRkZGRkZGRkZGRkZGRkZ'') \<and>
   decryptWithAddressKey toyCrypto (js ''tl1:AAECAwQFBgcICQoL:aWoZGRkZGRkZGRkZGRkZGRkZ'') sampleKey =
     ([], Inl (Error (js ''Unsupported ciphertext format''))) \<and>
   (\<exists>c'. base64ToBytes (js ''bWoZGRkZGRkZGRkZGRkZGRkZ'') = Inr c' \<and>
         decryptAESGCM toyCrypto toyKey (getRandomValues toyCrypto 12) c' = None \<and>
         decryptWithAddressKey toyCrypto (js ''sl1:AAECAwQFBgcICQoL:bWoZGRkZGRkZGRkZGRkZGRkZ'')
           sampleKey =
           ([Digest (hexToBytes sampleKey), ImportKey toyKey,
             Decrypt toyKey (getRandomValues toyCrypto 12) c'],
            Inl (DOMException OperationError)))"
proof -
  let ?w = "js ''sl1:AAECAwQFBgcICQoL:aWoZGRkZGRkZGRkZGRkZGRkZ''"
  have bom: "js ''hi'' = [] \<or> hd (js ''hi'') \<noteq> 0xFEFF"
    by (simp add: js_def)
  have i0: "0 < length ?w" and i21: "21 < length ?w"
    by (simp_all add: js_def)
  have c0: "(0x74 :: code_unit) \<noteq> ?w ! 0" and c21: "(0x62 :: code_unit) \<noteq> ?w ! 21"
    by (simp_all add: js_def)
  have u0: "?w[0 := 0x74] = js ''tl1:AAECAwQFBgcICQoL:aWoZGRkZGRkZGRkZGRkZGRkZ''"
    by (simp add: js_def)
  note t0 = tampering_detected [OF conforming_toyCrypto ADDRESS_RE_sampleKey wellFormed_hi bom
        encrypt_hi_calls i0 c0]
  have 1: "decryptWithAddressKey toyCrypto (?w[0 := 0x74]) sampleKey =
     ([], Inl (Error (js ''Unsupported ciphertext format'')))"
    using t0 by simp
  note t21 = tampering_detected [OF conforming_toyCrypto ADDRESS_RE_sampleKey wellFormed_hi bom
        encrypt_hi_calls i21 c21, THEN conjunct2]
  have k: "digestSHA256 toyCrypto (hexToBytes sampleKey) = toyKey"
    by (rule digest_sampleKey)
  have d: "decryptAESGCM toyCrypto = toyDecrypt" by (simp add: toyCrypto_def)
  have e: "snd (decryptWithAddressKey toyCrypto (?w[21 := 0x62]) sampleKey) =
      Inl (DOMException OperationError)"
    unfolding changed_hi by (simp add: decrypt_changed_hi)
  have "snd (decryptWithAddressKey toyCrypto (?w[21 := 0x62]) sampleKey) =
              Inl (Error (js ''Unsupported ciphertext format'')) \<or>
        snd (decryptWithAddressKey toyCrypto (?w[21 := 0x62]) sampleKey) =
              Inl (DOMException InvalidCharacterError) \<or>
        (\<exists>iv' c'.
           base64ToBytes (split (?w[21 := 0x62]) 0x3A ! 1) = Inr iv' \<and>
           base64ToBytes (split (?w[21 := 0x62]) 0x3A ! 2) = Inr c' \<and>
           ((21 < (20::nat) \<longrightarrow> iv' \<noteq> getRandomValues toyCrypto 12) \<and>
            ((20::nat) < 21 \<longrightarrow> iv' = getRandomValues toyCrypto 12)) \<and>
           decryptWithAddressKey toyCrypto (?w[21 := 0x62]) sampleKey =
             ([Digest (hexToBytes sampleKey),
               ImportKey (digestSHA256 toyCrypto (hexToBytes sampleKey)),
               Decrypt (digestSHA256 toyCrypto (hexToBytes sampleKey)) iv' c'],
              case decryptAESGCM toyCrypto (digestSHA256 toyCrypto (hexToBytes sampleKey)) iv' c' of
                None \<Rightarrow> Inl (DOMException OperationError)
              | Some plainBuffer \<Rightarrow> Inr (TextDecoder_decode plainBuffer)) \<and>
           (iv' = getRandomValues toyCrypto 12 \<and>
            c' = encryptAESGCM toyCrypto (digestSHA256 toyCrypto (hexToBytes sampleKey))
                   (getRandomValues toyCrypto 12) (TextEncoder_encode (js ''hi'')) \<longrightarrow>
              snd (decryptWithAddressKey toyCrypto (?w[21 := 0x62]) sampleKey) = Inr (js ''hi'')))"
    by (rule mp [OF t21]) simp
  then obtain iv' c' where
    s2: "base64ToBytes (split (?w[21 := 0x62]) 0x3A ! 2) = Inr c'" and
    iv: "iv' = getRandomValues toyCrypto 12" and
    r: "decryptWithAddressKey toyCrypto (?w[21 := 0x62]) sampleKey =
             ([Digest (hexToBytes sampleKey), ImportKey toyKey, Decrypt toyKey iv' c'],
              case decryptAESGCM toyCrypto toyKey iv' c' of
                None \<Rightarrow> Inl (DOMException OperationError)
              | Some plainBuffer \<Rightarrow> Inr (TextDecoder_decode plainBuffer))"
    using e unfolding k by auto
  have s2': "base64ToBytes (js ''bWoZGRkZGRkZGRkZGRkZGRkZ'') = Inr c'"
    using s2 unfolding changed_hi split_changed_hi by simp
  then have c': "c' = [109, 106, 25, 25, 25, 25, 25, 25, 25, 25, 25, 25, 25, 25, 25, 25, 25, 25]"
    by (simp add: base64ToBytes_changed_hi)
  have none: "decryptAESGCM toyCrypto toyKey (getRandomValues toyCrypto 12) c' = None"
    unfolding c' d getRandomValues_toy by (rule toyDecrypt_changed_hi)
  have 2: "decryptWithAddressKey toyCrypto (js ''sl1:AAECAwQFBgcICQoL:bWoZGRkZGRkZGRkZGRkZGRkZ'')
           sampleKey =
           ([Digest (hexToBytes sampleKey), ImportKey toyKey,
             Decrypt toyKey (getRandomValues toyCrypto 12) c'],
            Inl (DOMException OperationError))"
    using r none unfolding changed_hi iv by simp
  from s2' none 2 have 3: "\<exists>c'. base64ToBytes (js ''bWoZGRkZGRkZGRkZGRkZGRkZ'') = Inr c' \<and>
         decryptAESGCM toyCrypto toyKey (getRandomValues toyCrypto 12) c' = None \<and>
         decryptWithAddressKey toyCrypto (js ''sl1:AAECAwQFBgcICQoL:bWoZGRkZGRkZGRkZGRkZGRkZ'')
           sampleKey =
           ([Digest (hexToBytes sampleKey), ImportKey toyKey,
             Decrypt toyKey (getRandomValues toyCrypto 12) c'],
            Inl (DOMException OperationError))"
    by blast
  show ?thesis
    using conforming_toyCrypto ADDRESS_RE_sampleKey wellFormed_hi encrypt_hi 1 3
    unfolding u0 by (intro conjI)
qed

text \<open>
  The claim as written fails: not every change makes decryption fail. The ciphertext of
  \<^verbatim>\<open>hey\<close> has 19 bytes, so its base64 text ends in \<^verbatim>\<open>g==\<close>, and the last four
  bits of \<^verbatim>\<open>g\<close> are not part of any byte. \<^verbatim>\<open>atob\<close> drops them without looking, so
  with \<^verbatim>\<open>h\<close> in the place of \<^verbatim>\<open>g\<close> the same bytes are decoded and the original
  plaintext comes back.
\<close>

lemma encode_hey: "TextEncoder_encode (js ''hey'') = [104, 101, 121]"
  by (simp add: TextEncoder_encode_def js_def utf8Bytes_def isHighSurrogate_def isLowSurrogate_def)

lemma toyEncrypt_hey:
  "toyEncrypt toyKey [0, 1, 2, 3, 4, 5, 6, 7, 8, 9, 10, 11] [104, 101, 121] =
     [105, 102, 122, 142, 142, 142, 142, 142, 142, 142, 142, 142, 142, 142, 142, 142, 142, 142, 142]"
  by (simp add: toyEncrypt_def toyTag_def toyKey_def Let_def)

lemma wire_hey:
  "wire [0, 1, 2, 3, 4, 5, 6, 7, 8, 9, 10, 11]
     [105, 102, 122, 142, 142, 142, 142, 142, 142, 142, 142, 142, 142, 142, 142, 142, 142, 142, 142] =
   js ''sl1:AAECAwQFBgcICQoL:aWZ6jo6Ojo6Ojo6Ojo6Ojo6Ojg==''"
  by (simp add: wire_def b64char_def js_def)

lemma encrypt_hey:
  "snd (encryptWithAddressKey toyCrypto (js ''hey'') sampleKey) =
     Inr (js ''sl1:AAECAwQFBgcICQoL:aWZ6jo6Ojo6Ojo6Ojo6Ojo6Ojg=='')"
proof -
  have "encryptAESGCM toyCrypto = toyEncrypt" by (simp add: toyCrypto_def)
  then show ?thesis
    by (simp add: encrypt_conforming [OF conforming_toyCrypto ADDRESS_RE_sampleKey]
          getRandomValues_toy digest_sampleKey encode_hey toyEncrypt_hey wire_hey)
qed

lemma changed_hey:
  "(js ''sl1:AAECAwQFBgcICQoL:aWZ6jo6Ojo6Ojo6Ojo6Ojo6Ojg=='')[46 := 0x68] =
     js ''sl1:AAECAwQFBgcICQoL:aWZ6jo6Ojo6Ojo6Ojo6Ojo6Ojh==''"
  by (simp add: js_def eval_nat_numeral)

lemma split_changed_hey:
  "split (js ''sl1:AAECAwQFBgcICQoL:aWZ6jo6Ojo6Ojo6Ojo6Ojo6Ojh=='') 0x3A =
     [js ''sl1'', js ''AAECAwQFBgcICQoL'', js ''aWZ6jo6Ojo6Ojo6Ojo6Ojo6Ojh=='']"
  by (simp add: js_def)

lemma base64ToBytes_changed_hey:
  "base64ToBytes (js ''aWZ6jo6Ojo6Ojo6Ojo6Ojo6Ojh=='') =
     Inr [105, 102, 122, 142, 142, 142, 142, 142, 142, 142, 142, 142, 142, 142, 142, 142, 142, 142,
          142]"
  by (simp add: base64ToBytes_def atob_def js_def stripPadding_def isAsciiWhitespace_def b64index_def)

lemma toyDecrypt_hey:
  "toyDecrypt toyKey [0, 1, 2, 3, 4, 5, 6, 7, 8, 9, 10, 11]
     [105, 102, 122, 142, 142, 142, 142, 142, 142, 142, 142, 142, 142, 142, 142, 142, 142, 142, 142] =
   Some [104, 101, 121]"
  by (simp add: toyDecrypt_def toyTag_def toyKey_def Let_def)

lemma decode_hey: "TextDecoder_decode [104, 101, 121] = js ''hey''"
  by (simp add: TextDecoder_decode_def utf16Units_def js_def)

theorem tampering_counterexample:
  "snd (encryptWithAddressKey toyCrypto (js ''hey'') sampleKey) =
     Inr (js ''sl1:AAECAwQFBgcICQoL:aWZ6jo6Ojo6Ojo6Ojo6Ojo6Ojg=='') \<and>
   (js ''sl1:AAECAwQFBgcICQoL:aWZ6jo6Ojo6Ojo6Ojo6Ojo6Ojg=='')[46 := 0x68] =
     js ''sl1:AAECAwQFBgcICQoL:aWZ6jo6Ojo6Ojo6Ojo6Ojo6Ojh=='' \<and>
   js ''sl1:AAECAwQFBgcICQoL:aWZ6jo6Ojo6Ojo6Ojo6Ojo6Ojh=='' \<noteq>
     js ''sl1:AAECAwQFBgcICQoL:aWZ6jo6Ojo6Ojo6Ojo6Ojo6Ojg=='' \<and>
   snd (decryptWithAddressKey toyCrypto (js ''sl1:AAECAwQFBgcICQoL:aWZ6jo6Ojo6Ojo6Ojo6Ojo6Ojh=='')
          sampleKey) = Inr (js ''hey'')"
proof -
  have d: "decryptAESGCM toyCrypto = toyDecrypt" by (simp add: toyCrypto_def)
  have 3: "js ''sl1:AAECAwQFBgcICQoL:aWZ6jo6Ojo6Ojo6Ojo6Ojo6Ojh=='' \<noteq>
     js ''sl1:AAECAwQFBgcICQoL:aWZ6jo6Ojo6Ojo6Ojo6Ojo6Ojg==''"
    by (simp add: js_def)
  have 4: "snd (decryptWithAddressKey toyCrypto
      (js ''sl1:AAECAwQFBgcICQoL:aWZ6jo6Ojo6Ojo6Ojo6Ojo6Ojh=='') sampleKey) = Inr (js ''hey'')"
    by (simp add: decryptWithAddressKey_def split_changed_hey element_def falsy_def Let_def
        derive_sampleKey base64ToBytes_iv base64ToBytes_changed_hey d toyDecrypt_hey decode_hey js_ne)
  from encrypt_hey changed_hey 3 4 show ?thesis by (intro conjI)
qed

section \<open>Properties of the client component\<close>

subsection \<open>Tasks that all fulfil\<close>

lemma settle_fulfilled:
  fixes vs :: "'a list"
  defines "tasks \<equiv> (map Inr vs :: ('e + 'a) list)"
  assumes "length slots = length vs"
  shows "settle tasks order slots =
     Inr (map (\<lambda>i. if i \<in> set order then Some (vs ! i) else slots ! i) [0..<length vs])"
  using assms(2)
proof (induction order arbitrary: slots)
  case Nil
  have "slots = map (\<lambda>i. if i \<in> set [] then Some (vs ! i) else slots ! i) [0..<length vs]"
    using Nil by (intro nth_equalityI) simp_all
  then show ?case by simp
next
  case (Cons i order)
  show ?case
  proof (cases "i < length vs")
    case True
    have "settle tasks (i # order) slots = settle tasks order (slots[i := Some (vs ! i)])"
      using True by (simp add: tasks_def)
    also have "\<dots> = Inr (map (\<lambda>j. if j \<in> set order then Some (vs ! j)
                                  else slots[i := Some (vs ! i)] ! j) [0..<length vs])"
      using Cons.prems by (intro Cons.IH) simp
    also have "map (\<lambda>j. if j \<in> set order then Some (vs ! j) else slots[i := Some (vs ! i)] ! j)
                 [0..<length vs] =
               map (\<lambda>j. if j \<in> set (i # order) then Some (vs ! j) else slots ! j) [0..<length vs]"
      using Cons.prems by (auto simp: nth_list_update)
    finally show ?thesis .
  next
    case False
    have "settle tasks (i # order) slots = settle tasks order slots"
      using False by (simp add: tasks_def)
    also have "\<dots> = Inr (map (\<lambda>j. if j \<in> set order then Some (vs ! j) else slots ! j) [0..<length vs])"
      using Cons.prems by (rule Cons.IH)
    also have "map (\<lambda>j. if j \<in> set order then Some (vs ! j) else slots ! j) [0..<length vs] =
               map (\<lambda>j. if j \<in> set (i # order) then Some (vs ! j) else slots ! j) [0..<length vs]"
      using False by auto
    finally show ?thesis .
  qed
qed

lemma Promise_all_fulfilled:
  fixes vs :: "'a list"
  assumes "{0..<length vs} \<subseteq> set order"
  shows "Promise_all order (map Inr vs :: ('e + 'a) list) = Some (Inr vs)"
proof -
  let ?tasks = "map Inr vs :: ('e + 'a) list"
  have "settle ?tasks order (replicate (length vs) None) =
      Inr (map (\<lambda>i. if i \<in> set order then Some (vs ! i) else replicate (length vs) None ! i)
             [0..<length vs])"
    by (rule settle_fulfilled) simp
  also have "map (\<lambda>i. if i \<in> set order then Some (vs ! i) else replicate (length vs) None ! i)
             [0..<length vs] = map (\<lambda>i. Some (vs ! i)) [0..<length vs]"
    using assms by auto
  also have "\<dots> = map Some vs"
    by (intro nth_equalityI) simp_all
  finally have "settle ?tasks order (replicate (length vs) None) = Inr (map Some vs)" .
  then show ?thesis
    by (simp add: Promise_all_def list_all_iff comp_def)
qed



subsection \<open>What \<^verbatim>\<open>decryptAll\<close> gives\<close>

text \<open>
  Whatever the entries, the key and the order in which the tasks of \<^verbatim>\<open>decryptAll\<close>
  settle, once all have settled \<^verbatim>\<open>decryptAll\<close> fulfils with \<^verbatim>\<open>decryptEntry\<close> of
  each entry, in the order of the entries; an entry that was not decrypted yet gets
  the plaintext when its own decryption succeeds and the message of its own exception
  when it fails.
\<close>

lemma decryptAll_fulfilled:
  assumes "{0..<length es} \<subseteq> set order"
  shows "decryptAll order wc pm key es = Some (Inr (map (decryptEntry wc pm key) es))"
proof -
  have "{0..<length (map (decryptEntry wc pm key) es)} \<subseteq> set order"
    using assms by simp
  then have "Promise_all order (map Inr (map (decryptEntry wc pm key) es)) =
      (Some (Inr (map (decryptEntry wc pm key) es)) :: (exn + Entry list) option)"
    by (rule Promise_all_fulfilled)
  then show ?thesis
    by (simp add: decryptAll_def comp_def)
qed


subsection \<open>The indices that \<^verbatim>\<open>refresh\<close> reads\<close>

lemma toDouble_exact: "n < 2 ^ 53 \<Longrightarrow> toDouble n = n"
  by (simp add: toDouble_def)

lemma refreshIndices_upt:
  assumes "count < 2 ^ 53"
  shows "refreshIndices count = [count - 25..<count]"
proof -
  have 1: "toDouble count = count"
    using assms by (rule toDouble_exact)
  have "count - 25 < 2 ^ 53" using assms by simp
  then have 2: "toDouble (count - 25) = count - 25"
    by (rule toDouble_exact)
  have "count - (count - 25) < 2 ^ 53" using assms by simp
  then have 3: "toDouble (count - (count - 25)) = count - (count - 25)"
    by (rule toDouble_exact)
  have 4: "toDouble (count - 25 + i) = count - 25 + i" if "i < count - (count - 25)" for i
  proof -
    have "count - 25 + i < 2 ^ 53" using that assms by simp
    then show ?thesis by (rule toDouble_exact)
  qed
  have "map (\<lambda>i. toDouble (count - 25 + i)) [0..<count - (count - 25)] = [count - 25..<count]"
    by (intro nth_equalityI) (simp_all add: 4)
  then show ?thesis
    by (simp only: refreshIndices_def Let_def 1 2 3)
qed








lemma refreshIndices_2: "refreshIndices 2 = [0, 1]"
proof -
  have "(2 :: nat) < 2 ^ 53" by simp
  then show ?thesis by (simp add: refreshIndices_upt upt_rec)
qed




subsection \<open>Renders\<close>


lemma render_entryCount: "entryCount (st (render c)) = entryCount (st c)"
  by (simp add: render_def decryptEffect_def Let_def)



















subsection \<open>A session on the small platform\<close>

text \<open>
  A ledger with one entry, the wire string of \<^verbatim>\<open>hi\<close> under the sample key; later a
  second entry that is no wire string. The wallet is connected on Sepolia; the relayer
  reveals the sample key for an authorisation of ten days.
\<close>

definition toyMessages :: platformMessages where
  "toyMessages payload addressKey n = js ''The operation failed''"

definition greeting :: Entry where
  "greeting = \<lparr>index = 0, createdAt = 105,
                ciphertext = js ''sl1:AAECAwQFBgcICQoL:aWoZGRkZGRkZGRkZGRkZGRkZ'',
                plaintext = None, decryptError = None\<rparr>"

definition garbled :: Entry where
  "garbled = \<lparr>index = 1, createdAt = 107, ciphertext = js ''garbage'', plaintext = None,
               decryptError = None\<rparr>"

definition sepolia :: environment where
  "sepolia = \<lparr>isConnected = True, account = Some (js ''0xA11CE''), zamaInstance = True,
               signerPromise = True, isOnSepolia = True, isContractAddressValid = True,
               isContractAddressUnset = False\<rparr>"


definition oneEntry :: readContract where
  "oneEntry =
     \<lparr>read_hasLedger = Inr True, read_getLedgerKey = Inr (js ''0x11''),
      read_getEntryCount = Inr 1,
      read_getEntry = (\<lambda>i. Inr (105, js ''sl1:AAECAwQFBgcICQoL:aWoZGRkZGRkZGRkZGRkZGRkZ''))\<rparr>"

definition twoEntries :: readContract where
  "twoEntries =
     \<lparr>read_hasLedger = Inr True, read_getLedgerKey = Inr (js ''0x11''),
      read_getEntryCount = Inr 2,
      read_getEntry =
        (\<lambda>i. if i = 0 then Inr (105, js ''sl1:AAECAwQFBgcICQoL:aWoZGRkZGRkZGRkZGRkZGRkZ'')
              else Inr (107, js ''garbage''))\<rparr>"


definition revealSample :: "nat \<Rightarrow> nat \<Rightarrow> thrown + jsstring option" where
  "revealSample start days =
     (if start = 1700000001 \<and> days = 10 then Inr (Some sampleKey) else Inl None)"

definition ledgerLoaded :: LedgerApp where
  "ledgerLoaded =
     \<lparr>hasLedgerSt = True, encryptedLedgerKey = Some (js ''0x11''), ledgerKeyAddress = None,
      entries = [greeting], entryCount = 1, status = [], error = []\<rparr>"

definition unlockedSession :: "(nat \<times> event) list" where
  "unlockedSession =
     [(1700000000000, Refresh sepolia oneEntry [0]),
      (1700000001000, Unlock sepolia revealSample),
      (1700000002000, DecryptAllSettled [0])]"

lemma session_append:
  "session wc pm (evs @ evs') c = session wc pm evs' (session wc pm evs c)"
  by (induction evs arbitrary: c) auto

lemma sampleKey_not_Nil: "sampleKey \<noteq> []"
  by (simp add: sampleKey_def js_ne)

lemma mountedComponent_eq:
  "mountedComponent = \<lparr>st = mounted, lastDeps = Some (0, None), decrypting = None\<rparr>"
  by (simp add: mountedComponent_def render_def decryptEffect_def Let_def mounted_def falsy_def)

lemma refreshIndices_1: "refreshIndices 1 = [0]"
proof -
  have "(1 :: nat) < 2 ^ 53" by simp
  then show ?thesis by (simp add: refreshIndices_upt)
qed

lemma refreshPouch_oneEntry: "refreshPouch [0] (read_getEntry oneEntry) 1 = Some (Inr [greeting])"
  using refreshIndices_1 by (simp add: refreshPouch_def Promise_all_def oneEntry_def greeting_def)

lemma refreshPouch_twoEntries:
  "refreshPouch [1, 0] (read_getEntry twoEntries) 2 = Some (Inr [greeting, garbled])"
  by (simp add: refreshPouch_def refreshIndices_2 Promise_all_def twoEntries_def greeting_def
        garbled_def)

lemma refresh_oneEntry:
  "refresh sepolia oneEntry [0] mountedComponent =
     \<lparr>st = ledgerLoaded, lastDeps = Some (1, None), decrypting = None\<rparr>"
proof -
  have r: "read_hasLedger oneEntry = Inr True" "read_getLedgerKey oneEntry = Inr (js ''0x11'')"
      "read_getEntryCount oneEntry = Inr 1"
    by (simp_all add: oneEntry_def)
  show ?thesis
    using refreshPouch_oneEntry refreshIndices_1
    by (simp add: refresh_def Let_def r sepolia_def falsy_def js_ne
          setState_def render_def decryptEffect_def mountedComponent_eq mounted_def
          clearMessages_def ledgerLoaded_def)
qed

lemma unlock_ledgerLoaded:
  "unlockLedger sepolia 1700000001000 revealSample ledgerLoaded =
     ledgerLoaded\<lparr>ledgerKeyAddress := Some sampleKey, status := js ''Ledger unlocked.''\<rparr>"
  by (simp add: unlockLedger_def Let_def clearMessages_def ledgerLoaded_def sepolia_def
        falsy_def isAddress_def ADDRESS_RE_sampleKey js_ne revealSample_def)

definition unlocked :: LedgerApp where
  "unlocked = ledgerLoaded\<lparr>ledgerKeyAddress := Some sampleKey, status := js ''Ledger unlocked.''\<rparr>"

lemma unlocked_fields:
  "ledgerKeyAddress unlocked = Some sampleKey" "entryCount unlocked = 1"
  "entries unlocked = [greeting]"
  by (simp_all add: unlocked_def ledgerLoaded_def)

lemma greeting_fresh: "plaintext greeting = None" "decryptError greeting = None"
  by (simp_all add: greeting_def)

lemma garbled_fresh: "plaintext garbled = None" "decryptError garbled = None"
  by (simp_all add: garbled_def)

lemma unlock_component:
  "setState (unlockLedger sepolia 1700000001000 revealSample)
     \<lparr>st = ledgerLoaded, lastDeps = Some (1, None), decrypting = None\<rparr> =
   \<lparr>st = unlocked, lastDeps = Some (1, Some sampleKey), decrypting = Some (sampleKey, [greeting])\<rparr>"
  by (simp add: setState_def unlock_ledgerLoaded unlocked_def [symmetric] render_def
        decryptEffect_def Let_def unlocked_fields falsy_def sampleKey_not_Nil greeting_fresh)

lemma decryptEntry_greeting:
  "decryptEntry toyCrypto toyMessages sampleKey greeting = greeting\<lparr>plaintext := Some (js ''hi'')\<rparr>"
  by (simp add: decryptEntry_def greeting_def decrypt_hi)

lemma decryptAll_greeting:
  "decryptAll [0] toyCrypto toyMessages sampleKey [greeting] =
     Some (Inr [greeting\<lparr>plaintext := Some (js ''hi'')\<rparr>])"
proof -
  have "{0..<length [greeting]} \<subseteq> set [0]" by simp
  from decryptAll_fulfilled [OF this, of toyCrypto toyMessages sampleKey]
  show ?thesis by (simp add: decryptEntry_greeting)
qed

definition decrypted :: LedgerApp where
  "decrypted = unlocked\<lparr>entries := [greeting\<lparr>plaintext := Some (js ''hi'')\<rparr>]\<rparr>"

lemma decrypted_fields:
  "ledgerKeyAddress decrypted = Some sampleKey" "entryCount decrypted = 1"
  "entries decrypted = [greeting\<lparr>plaintext := Some (js ''hi'')\<rparr>]"
  by (simp_all add: decrypted_def unlocked_fields)

lemma settled_component:
  "decryptAllSettled [0] toyCrypto toyMessages
     \<lparr>st = unlocked, lastDeps = Some (1, Some sampleKey), decrypting = Some (sampleKey, [greeting])\<rparr> =
   \<lparr>st = decrypted, lastDeps = Some (1, Some sampleKey), decrypting = None\<rparr>"
  by (simp add: decryptAllSettled_def decryptAll_greeting setState_def render_def unlocked_fields
        decrypted_def)

lemma session_unlocked:
  "session toyCrypto toyMessages unlockedSession mountedComponent =
     \<lparr>st = decrypted, lastDeps = Some (1, Some sampleKey), decrypting = None\<rparr>"
  using refresh_oneEntry unlock_component settled_component
  by (simp add: unlockedSession_def handle_def)

text \<open>With the key held and its entry decrypted, \<^verbatim>\<open>refresh\<close> finds a second entry.\<close>

lemma refresh_twoEntries:
  "refresh sepolia twoEntries [1, 0]
     \<lparr>st = decrypted, lastDeps = Some (1, Some sampleKey), decrypting = None\<rparr> =
   \<lparr>st = decrypted\<lparr>status := [], error := [], entryCount := 2, entries := [greeting, garbled]\<rparr>,
    lastDeps = Some (2, Some sampleKey), decrypting = None\<rparr>"
proof -
  have r: "read_hasLedger twoEntries = Inr True" "read_getLedgerKey twoEntries = Inr (js ''0x11'')"
      "read_getEntryCount twoEntries = Inr 2"
    by (simp_all add: twoEntries_def)
  have d: "decrypted =
      \<lparr>hasLedgerSt = True, encryptedLedgerKey = Some (js ''0x11''),
       ledgerKeyAddress = Some sampleKey, entries = [greeting\<lparr>plaintext := Some (js ''hi'')\<rparr>],
       entryCount = 1, status = js ''Ledger unlocked.'', error = []\<rparr>"
    by (simp add: decrypted_def unlocked_def ledgerLoaded_def)
  show ?thesis
    using refreshPouch_twoEntries refreshIndices_2
    by (simp add: refresh_def Let_def r sepolia_def falsy_def js_ne
          setState_def render_def decryptEffect_def d clearMessages_def sampleKey_not_Nil
          greeting_def)
qed

definition refreshedWhileUnlocked :: "(nat \<times> event) list" where
  "refreshedWhileUnlocked =
     [(1700000060000, Refresh sepolia twoEntries [1, 0]),
      (1700000061000, DecryptAllSettled [0, 1])]"

lemma session_refreshed:
  "session toyCrypto toyMessages (unlockedSession @ refreshedWhileUnlocked) mountedComponent =
     \<lparr>st = decrypted\<lparr>status := [], error := [], entryCount := 2, entries := [greeting, garbled]\<rparr>,
      lastDeps = Some (2, Some sampleKey), decrypting = None\<rparr>"
  using refresh_twoEntries
  by (simp add: session_append session_unlocked refreshedWhileUnlocked_def handle_def
        decryptAllSettled_def)

lemma decryptEntry_garbled:
  "decryptEntry toyCrypto toyMessages sampleKey garbled =
     garbled\<lparr>decryptError := Some (js ''Unsupported ciphertext format'')\<rparr>"
proof -
  have "split (js ''garbage'') 0x3A = [js ''garbage'']"
    by (simp add: js_def)
  then have "snd (decryptWithAddressKey toyCrypto (js ''garbage'') sampleKey) =
      Inl (Error (js ''Unsupported ciphertext format''))"
    by (simp add: decryptWithAddressKey_def Let_def element_def falsy_def)
  then show ?thesis
    by (simp add: decryptEntry_def garbled_def errMessage_def)
qed

lemma decryptAll_two:
  "decryptAll [0, 1] toyCrypto toyMessages sampleKey [greeting, garbled] =
     Some (Inr [greeting\<lparr>plaintext := Some (js ''hi'')\<rparr>,
                garbled\<lparr>decryptError := Some (js ''Unsupported ciphertext format'')\<rparr>])"
proof -
  have "{0..<length [greeting, garbled]} \<subseteq> set [0, 1]" by auto
  from decryptAll_fulfilled [OF this, of toyCrypto toyMessages sampleKey]
  show ?thesis by (simp add: decryptEntry_greeting decryptEntry_garbled)
qed

text \<open>
  Claim C7 (every entry ends with its plaintext or its own failure reason) does not hold
  of the component. The decrypt effect runs only when \<^verbatim>\<open>entryCount\<close> or
  \<^verbatim>\<open>ledgerKeyAddress\<close> changes (line 175), and \<^verbatim>\<open>refresh\<close> changes \<^verbatim>\<open>entryCount\<close>
  (line 108) before it stores the entries it read (line 127). In the session below the
  ledger is unlocked and its one entry is decrypted; then, with the key held,
  \<^verbatim>\<open>refresh\<close> loads two entries. The effect runs on the change of the count, finds the
  old entry decrypted and does nothing; when the two entries arrive no dependency
  changes, so \<^verbatim>\<open>decryptAll\<close> is never started on them: both stay without plaintext and
  without error message, and nothing is under way that would change that.
  \<^verbatim>\<open>decryptAll\<close> itself, run on the two entries with the key held, would give the
  first its plaintext and the second its own error message.
\<close>

theorem entries_loaded_while_unlocked:
  "ledgerKeyAddress (st (session toyCrypto toyMessages unlockedSession mountedComponent)) =
     Some sampleKey \<and>
   entries (st (session toyCrypto toyMessages unlockedSession mountedComponent)) =
     [greeting\<lparr>plaintext := Some (js ''hi'')\<rparr>] \<and>
   ledgerKeyAddress
     (st (session toyCrypto toyMessages (unlockedSession @ refreshedWhileUnlocked) mountedComponent)) =
     Some sampleKey \<and>
   entries
     (st (session toyCrypto toyMessages (unlockedSession @ refreshedWhileUnlocked) mountedComponent)) =
     [greeting, garbled] \<and>
   decrypting
     (session toyCrypto toyMessages (unlockedSession @ refreshedWhileUnlocked) mountedComponent) =
     None \<and>
   plaintext greeting = None \<and> decryptError greeting = None \<and>
   plaintext garbled = None \<and> decryptError garbled = None \<and>
   decryptAll [0, 1] toyCrypto toyMessages sampleKey [greeting, garbled] =
     Some (Inr [greeting\<lparr>plaintext := Some (js ''hi'')\<rparr>,
                garbled\<lparr>decryptError := Some (js ''Unsupported ciphertext format'')\<rparr>])"
  using decryptAll_two
  by (simp add: session_unlocked session_refreshed decrypted_fields greeting_fresh garbled_fresh)

subsection \<open>The key in a session\<close>









end
